theory Spec2Isabelle
  imports Complex_Main "HOL-Library.AList"
begin

section \<open>JSON values and Python dictionaries\<close>

text \<open>
  The values \<^verbatim>\<open>json.load\<close> produces: \<^verbatim>\<open>None\<close>, \<^verbatim>\<open>bool\<close>, \<^verbatim>\<open>int\<close>
  (unbounded), \<^verbatim>\<open>float\<close>, \<^verbatim>\<open>str\<close>, \<^verbatim>\<open>list\<close> and \<^verbatim>\<open>dict\<close>.
  A \<^verbatim>\<open>float\<close> is a finite value, represented by its exact rational value (Python compares
  an int with a float exactly), an infinity, or NaN: \<^verbatim>\<open>json.loads\<close> accepts the texts
  \<^verbatim>\<open>Infinity\<close>, \<^verbatim>\<open>-Infinity\<close> and \<^verbatim>\<open>NaN\<close>.
  A \<^verbatim>\<open>dict\<close> is an association list in insertion order. Python keeps the keys of a
  dict distinct; \<open>wf_json\<close> below states this of every dict of a tree.
\<close>

datatype pyfloat = Finite rat | PosInf | NegInf | NaN

datatype json =
    JNull
  | JBool bool
  | JInt int
  | JFloat pyfloat
  | JStr string
  | JList "json list"
  | JDict "(string \<times> json) list"

type_synonym dict = "(string \<times> json) list"

text \<open>\<^verbatim>\<open>isinstance(value, (dict, list))\<close>\<close>

fun is_container :: "json \<Rightarrow> bool" where
  "is_container (JDict kvs) = True"
| "is_container (JList xs) = True"
| "is_container v = False"

text \<open>\<^verbatim>\<open>schema.get(k, default)\<close>\<close>

definition dict_get :: "dict \<Rightarrow> string \<Rightarrow> json \<Rightarrow> json" where
  "dict_get d k dflt = (case map_of d k of None \<Rightarrow> dflt | Some v \<Rightarrow> v)"

text \<open>
  \<^verbatim>\<open>schema[k] = v\<close> is \<open>AList.update k v\<close>: the value of an existing key is replaced
  where it stands, a new key is appended.
\<close>

text \<open>Every dict of the tree has distinct keys.\<close>

fun wf_json :: "json \<Rightarrow> bool" where
  "wf_json (JDict kvs) = (distinct (map fst kvs) \<and> list_all (\<lambda>kv. wf_json (snd kv)) kvs)"
| "wf_json (JList xs) = list_all wf_json xs"
| "wf_json v = True"

text \<open>
  The comparisons \<^verbatim>\<open><\<close> and \<^verbatim>\<open><=\<close> of Python numbers: every comparison with NaN is
  false.
\<close>

fun fl_lt :: "pyfloat \<Rightarrow> pyfloat \<Rightarrow> bool" where
  "fl_lt (Finite r) (Finite s) = (r < s)"
| "fl_lt (Finite r) PosInf = True"
| "fl_lt NegInf (Finite s) = True"
| "fl_lt NegInf PosInf = True"
| "fl_lt a b = False"

fun fl_le :: "pyfloat \<Rightarrow> pyfloat \<Rightarrow> bool" where
  "fl_le (Finite r) (Finite s) = (r \<le> s)"
| "fl_le NaN b = False"
| "fl_le a NaN = False"
| "fl_le NegInf b = True"
| "fl_le a PosInf = True"
| "fl_le a b = False"

text \<open>The numeric value of a Python number; \<^verbatim>\<open>bool\<close> is a subclass of \<^verbatim>\<open>int\<close>.\<close>

fun py_num :: "json \<Rightarrow> pyfloat option" where
  "py_num (JInt n) = Some (Finite (of_int n))"
| "py_num (JFloat f) = Some f"
| "py_num (JBool b) = Some (Finite (if b then 1 else 0))"
| "py_num v = None"

text \<open>\<^verbatim>\<open>isinstance(v, (int, float))\<close>\<close>

fun is_number :: "json \<Rightarrow> bool" where
  "is_number (JInt n) = True"
| "is_number (JFloat f) = True"
| "is_number (JBool b) = True"
| "is_number v = False"

text \<open>Nodes of a tree are addressed by paths: a key of a dict or an index of a list.\<close>

datatype step = Key string | Idx nat

fun at_path :: "json \<Rightarrow> step list \<Rightarrow> json option" where
  "at_path j [] = Some j"
| "at_path (JDict kvs) (Key k # p) =
     (case map_of kvs k of None \<Rightarrow> None | Some v \<Rightarrow> at_path v p)"
| "at_path (JList xs) (Idx i # p) = (if i < length xs then at_path (xs ! i) p else None)"
| "at_path j (s # p) = None"

section \<open>Exceptions\<close>

text \<open>
  The exceptions of the program, each with its message (\<^verbatim>\<open>str(e)\<close>).
  \<^verbatim>\<open>JSONDecodeError\<close> and \<^verbatim>\<open>UnicodeDecodeError\<close> are subclasses of \<^verbatim>\<open>ValueError\<close>;
  every class here is a subclass of \<^verbatim>\<open>Exception\<close>. \<open>OtherException\<close> stands for any other subclass of \<^verbatim>\<open>Exception\<close>
  that a library raises.
\<close>

datatype exn =
    TypeError string
  | ValueError string
  | JSONDecodeError string
  | UnicodeDecodeError string
  | OSError string
  | AssertionError string
  | OtherException string

fun exn_str :: "exn \<Rightarrow> string" where
  "exn_str (TypeError m) = m"
| "exn_str (ValueError m) = m"
| "exn_str (JSONDecodeError m) = m"
| "exn_str (UnicodeDecodeError m) = m"
| "exn_str (OSError m) = m"
| "exn_str (AssertionError m) = m"
| "exn_str (OtherException m) = m"

text \<open>\<^verbatim>\<open>isinstance(e, ValueError)\<close>\<close>

fun is_ValueError :: "exn \<Rightarrow> bool" where
  "is_ValueError (ValueError m) = True"
| "is_ValueError (JSONDecodeError m) = True"
| "is_ValueError (UnicodeDecodeError m) = True"
| "is_ValueError e = False"

section \<open>The Complexity Limiter\<close>

text \<open>\<^verbatim>\<open>type(v).__name__\<close>\<close>

fun type_name :: "json \<Rightarrow> string" where
  "type_name JNull = ''NoneType''"
| "type_name (JBool b) = ''bool''"
| "type_name (JInt n) = ''int''"
| "type_name (JFloat r) = ''float''"
| "type_name (JStr s) = ''str''"
| "type_name (JList xs) = ''list''"
| "type_name (JDict kvs) = ''dict''"

text \<open>
  \<^verbatim>\<open>c < x\<close> for a Python int \<open>c\<close>. The only exception \<^verbatim>\<open>limit_complexity\<close> can raise
  is the \<^verbatim>\<open>TypeError\<close> of this comparison, made by \<^verbatim>\<open>min\<close>, when \<open>x\<close> is not a number.
\<close>

definition lt_error :: "json \<Rightarrow> exn" where
  "lt_error x = TypeError
     ([CHR 0x27] @ ''<'' @ [CHR 0x27] @ '' not supported between instances of '' @
      [CHR 0x27] @ ''int'' @ [CHR 0x27] @ '' and '' @ [CHR 0x27] @ type_name x @ [CHR 0x27])"

fun py_lt :: "int \<Rightarrow> json \<Rightarrow> exn + bool" where
  "py_lt c (JInt n) = Inr (c < n)"
| "py_lt c (JFloat f) = Inr (fl_lt (Finite (of_int c)) f)"
| "py_lt c (JBool b) = Inr (c < (if b then 1 else 0))"
| "py_lt c JNull = Inl (lt_error JNull)"
| "py_lt c (JStr s) = Inl (lt_error (JStr s))"
| "py_lt c (JList xs) = Inl (lt_error (JList xs))"
| "py_lt c (JDict kvs) = Inl (lt_error (JDict kvs))"

text \<open>\<^verbatim>\<open>min(x, c)\<close>: the second argument replaces the first only when it is smaller.\<close>

definition py_min :: "json \<Rightarrow> int \<Rightarrow> exn + json" where
  "py_min x c = (case py_lt c x of Inl e \<Rightarrow> Inl e | Inr b \<Rightarrow> Inr (if b then JInt c else x))"

text \<open>
  \<^verbatim>\<open>limit_complexity\<close>. \<open>limit_items xs d\<close> is the \<^verbatim>\<open>for\<close> loop over the snapshot
  \<^verbatim>\<open>list(schema.items())\<close>: \<open>xs\<close> is what is left of the snapshot, \<open>d\<close> the dict as
  mutated so far. \<open>limit_list\<close> is the list comprehension. The trees of \<^verbatim>\<open>json.load\<close>
  share no node, so mutation in place is modelled by returning the new value.
\<close>

fun limit_complexity :: "json \<Rightarrow> exn + json"
  and limit_items :: "dict \<Rightarrow> dict \<Rightarrow> exn + dict"
  and limit_list :: "json list \<Rightarrow> exn + json list"
where
  "limit_complexity (JDict kvs) =
     (case limit_items kvs kvs of Inl e \<Rightarrow> Inl e | Inr d \<Rightarrow> Inr (JDict d))"
| "limit_complexity (JList xs) =
     (case limit_list xs of Inl e \<Rightarrow> Inl e | Inr ys \<Rightarrow> Inr (JList ys))"
| "limit_complexity JNull = Inr JNull"
| "limit_complexity (JBool b) = Inr (JBool b)"
| "limit_complexity (JInt n) = Inr (JInt n)"
| "limit_complexity (JFloat r) = Inr (JFloat r)"
| "limit_complexity (JStr s) = Inr (JStr s)"
| "limit_items [] d = Inr d"
| "limit_items ((key, value) # rest) d =
     (if key = ''type'' \<and> value = JStr ''array'' then
        (case py_min (dict_get d ''maxItems'' (JInt 10)) 5 of
           Inl e \<Rightarrow> Inl e
         | Inr m \<Rightarrow> limit_items rest (AList.update ''maxItems'' m d))
      else if key = ''type'' \<and> value = JStr ''object'' then
        (case py_min (dict_get d ''maxProperties'' (JInt 10)) 5 of
           Inl e \<Rightarrow> Inl e
         | Inr m \<Rightarrow> limit_items rest (AList.update ''maxProperties'' m d))
      else if key = ''type'' \<and> value \<in> set [JStr ''string'', JStr ''number'', JStr ''integer''] then
        (case py_min (dict_get d ''maxLength'' (JInt 100)) 20 of
           Inl e \<Rightarrow> Inl e
         | Inr m \<Rightarrow> limit_items rest (AList.update ''maxLength'' m d))
      else if is_container value then
        (case limit_complexity value of
           Inl e \<Rightarrow> Inl e
         | Inr v' \<Rightarrow> limit_items rest (AList.update key v' d))
      else limit_items rest d)"
| "limit_list [] = Inr []"
| "limit_list (item # items) =
     (case limit_complexity item of
        Inl e \<Rightarrow> Inl e
      | Inr y \<Rightarrow> (case limit_list items of Inl e \<Rightarrow> Inl e | Inr ys \<Rightarrow> Inr (y # ys)))"

subsection \<open>Auxiliary notions for the proofs\<close>

text \<open>
  The bound an entry of the snapshot triggers: the key written, the default of
  \<^verbatim>\<open>get\<close> and the ceiling.
\<close>

definition type_bound :: "string \<Rightarrow> json \<Rightarrow> (string \<times> int \<times> int) option" where
  "type_bound key value =
     (if key = ''type'' \<and> value = JStr ''array'' then Some (''maxItems'', 10, 5)
      else if key = ''type'' \<and> value = JStr ''object'' then Some (''maxProperties'', 10, 5)
      else if key = ''type'' \<and> value \<in> set [JStr ''string'', JStr ''number'', JStr ''integer'']
        then Some (''maxLength'', 100, 20)
      else None)"

text \<open>The bound the first matching entry of a snapshot triggers.\<close>

fun items_bound :: "dict \<Rightarrow> (string \<times> int \<times> int) option" where
  "items_bound [] = None"
| "items_bound ((k, v) # rest) =
     (case type_bound k v of Some b \<Rightarrow> Some b | None \<Rightarrow> items_bound rest)"

text \<open>
  The trees on which \<^verbatim>\<open>min\<close> is only ever given numbers: at every dict, the bound key
  that the \<open>type\<close> entry selects is absent or holds a number.
\<close>

definition bound_ok :: "dict \<Rightarrow> string \<Rightarrow> bool" where
  "bound_ok kvs bk = (case map_of kvs bk of None \<Rightarrow> True | Some v \<Rightarrow> is_number v)"

definition node_numeric :: "dict \<Rightarrow> bool" where
  "node_numeric kvs =
     (case map_of kvs ''type'' of
        None \<Rightarrow> True
      | Some value \<Rightarrow>
          if value = JStr ''array'' then bound_ok kvs ''maxItems''
          else if value = JStr ''object'' then bound_ok kvs ''maxProperties''
          else if value \<in> set [JStr ''string'', JStr ''number'', JStr ''integer'']
            then bound_ok kvs ''maxLength''
          else True)"

fun bounds_numeric :: "json \<Rightarrow> bool" where
  "bounds_numeric (JDict kvs) =
     (node_numeric kvs \<and> list_all (\<lambda>kv. bounds_numeric (snd kv)) kvs)"
| "bounds_numeric (JList xs) = list_all bounds_numeric xs"
| "bounds_numeric v = True"

text \<open>
  The loop invariant: a container value still to be visited is the value the dict holds
  under its key.
\<close>

definition snap_inv :: "dict \<Rightarrow> dict \<Rightarrow> bool" where
  "snap_inv xs d = (\<forall>(k, v) \<in> set xs. is_container v \<longrightarrow> map_of d k = Some v)"

section \<open>The process and its collaborators\<close>

text \<open>
  What a run leaves behind: the texts written by \<^verbatim>\<open>print\<close> to standard output and to
  the diagnostic stream, one entry for each call, and the content of the file
  \<^verbatim>\<open>testcase.json\<close> of the working directory (\<open>None\<close> until it is written).
\<close>

record world =
  stdout :: "string list"
  stderr :: "string list"
  testcase_json :: "string option"

definition py_print :: "string \<Rightarrow> world \<Rightarrow> world" where
  "py_print s w = w\<lparr>stdout := stdout w @ [s]\<rparr>"

text \<open>\<^verbatim>\<open>print(s, file=sys.stderr)\<close>\<close>

definition py_eprint :: "string \<Rightarrow> world \<Rightarrow> world" where
  "py_eprint s w = w\<lparr>stderr := stderr w @ [s]\<rparr>"

text \<open>A statement that may raise: its exception or its result, and the world it leaves.\<close>

type_synonym 'a io = "world \<Rightarrow> (exn + 'a) \<times> world"

text \<open>
  \<^verbatim>\<open>open(path, 'r')\<close> and the reading of the file by \<^verbatim>\<open>json.load\<close>: the text of the
  file; \<^verbatim>\<open>FileNotFoundError\<close>; another \<^verbatim>\<open>OSError\<close> of \<^verbatim>\<open>open\<close> (\<^verbatim>\<open>PermissionError\<close>,
  \<^verbatim>\<open>IsADirectoryError\<close>, a name that is too long, ...), with its message; or the
  \<^verbatim>\<open>UnicodeDecodeError\<close> of reading a file that is not text, with its message.
\<close>

datatype open_result = Opened string | FileNotFound | OpenFails string | DecodeFails string

text \<open>
  The collaborators the program calls and does not define. They are parameters of the
  model:
  \<^item> \<open>fs_open\<close>: the file system, read by \<^verbatim>\<open>open\<close>;
  \<^item> \<open>json_loads\<close>: the parser of \<^verbatim>\<open>json.load\<close> and \<^verbatim>\<open>json.loads\<close>, giving the value
    or the message of the \<^verbatim>\<open>JSONDecodeError\<close>;
  \<^item> \<open>json_dumps\<close>, \<open>json_dumps_indent\<close>: \<^verbatim>\<open>json.dumps(x)\<close> and
    \<^verbatim>\<open>json.dumps(x, indent=2)\<close>;
  \<^item> \<open>seed_random\<close>: \<^verbatim>\<open>st.random.seed(seed)\<close>, which returns or raises;
  \<^item> \<open>from_schema\<close>: the strategy of a schema, or the exception raised for it;
  \<^item> \<open>run_given\<close>: the call of a function decorated with
    \<^verbatim>\<open>@settings(max_examples=num, deadline=None)\<close> and \<^verbatim>\<open>@given(strategy)\<close>: it is given the
    strategy, \<open>num\<close> and the body of the function, and runs the body as it sees fit;
  \<^item> \<open>subprocess_run\<close>: \<^verbatim>\<open>subprocess.run([script, 'testcase.json'], capture_output=True,
    text=True)\<close> in the current world: the return code, the captured standard output and
    standard error of the script, or the exception raised when it cannot be started.
\<close>

record 's env =
  fs_open :: "string \<Rightarrow> open_result"
  json_loads :: "string \<Rightarrow> string + json"
  json_dumps :: "json \<Rightarrow> string"
  json_dumps_indent :: "json \<Rightarrow> string"
  seed_random :: "int \<Rightarrow> exn option"
  from_schema :: "json \<Rightarrow> exn + 's"
  run_given :: "'s \<Rightarrow> int \<Rightarrow> (json \<Rightarrow> unit io) \<Rightarrow> unit io"
  subprocess_run :: "string \<Rightarrow> world \<Rightarrow> exn + (int \<times> string \<times> string)"

text \<open>\<^verbatim>\<open>str(n)\<close> for an int, and the rendering of an optional value by an f-string.\<close>

fun digits :: "nat \<Rightarrow> string" where
  "digits n = (if n < 10 then [''0123456789'' ! n]
     else digits (n div 10) @ [''0123456789'' ! (n mod 10)])"

declare digits.simps [simp del]

definition str_int :: "int \<Rightarrow> string" where
  "str_int i = (if i < 0 then ''-'' @ digits (nat (- i)) else digits (nat i))"

fun str_opt_int :: "int option \<Rightarrow> string" where
  "str_opt_int None = ''None''"
| "str_opt_int (Some i) = str_int i"

fun str_opt :: "string option \<Rightarrow> string" where
  "str_opt None = ''None''"
| "str_opt (Some s) = s"

section \<open>The Schema Loader\<close>

definition load_schema :: "'s env \<Rightarrow> string \<Rightarrow> json io" where
  "load_schema env schema_input w0 =
    (let w1 = py_print (''Attempting to load schema from: '' @ schema_input) w0 in
     case fs_open env schema_input of
       Opened text \<Rightarrow>
         (case json_loads env text of
            Inl msg \<Rightarrow> (Inl (JSONDecodeError msg), w1)
          | Inr schema \<Rightarrow>
              (Inr schema,
               py_print (''Successfully loaded schema from file: '' @ schema_input) w1))
     | OpenFails msg \<Rightarrow> (Inl (OSError msg), w1)
     | DecodeFails msg \<Rightarrow> (Inl (UnicodeDecodeError msg), w1)
     | FileNotFound \<Rightarrow>
         (case json_loads env schema_input of
            Inl msg \<Rightarrow> (Inl (ValueError (''Invalid schema: '' @ schema_input)), w1)
          | Inr schema \<Rightarrow> (Inr schema, py_print ''Successfully parsed inline JSON schema'' w1)))"

section \<open>The Instance Generator and the Script Runner\<close>

definition print_instance :: "'s env \<Rightarrow> json \<Rightarrow> unit io" where
  "print_instance env inst w =
     (Inr (), py_print (''Generated instance: '' @ json_dumps env inst) w)"

definition generate_json_instances :: "'s env \<Rightarrow> json \<Rightarrow> int \<Rightarrow> int option \<Rightarrow> unit io" where
  "generate_json_instances env schema num seed w0 =
    (let w1 = py_print (''Generating '' @ str_int num @ '' JSON instances with seed '' @
                 str_opt_int seed) w0;
         w2 = py_print (''Using schema: '' @ json_dumps_indent env schema) w1 in
     case limit_complexity schema of
       Inl e \<Rightarrow> (Inl e, w2)
     | Inr limited_schema \<Rightarrow>
         (case from_schema env limited_schema of
            Inl e \<Rightarrow> (Inl e, w2)
          | Inr strategy \<Rightarrow>
              (let w3 = py_print ''Starting instance generation'' w2 in
               case run_given env strategy num (print_instance env) w3 of
                 (Inl e, w4) \<Rightarrow> (Inl e, w4)
               | (Inr u, w4) \<Rightarrow> (Inr (), py_print ''Finished instance generation'' w4))))"

definition test_instance :: "'s env \<Rightarrow> string \<Rightarrow> json \<Rightarrow> unit io" where
  "test_instance env script inst w0 =
    (let w1 = py_print (''Generated test instance: '' @ json_dumps env inst) w0;
         w2 = w1\<lparr>testcase_json := Some (json_dumps env inst)\<rparr>;
         w3 = py_print (''Executing test script: '' @ script @ '' testcase.json'') w2 in
     case subprocess_run env script w3 of
       Inl e \<Rightarrow> (Inl e, w3)
     | Inr (returncode, out, err) \<Rightarrow>
         if returncode \<noteq> 0 then
           (Inl (AssertionError ''Test script failed''),
            py_print (''Test script failed with output:'' @ [CHR 0x0A] @ out @ [CHR 0x0A] @ err) w3)
         else (Inr (), py_print ''Test script executed successfully'' w3))"

definition run_test_script :: "'s env \<Rightarrow> json \<Rightarrow> int \<Rightarrow> string \<Rightarrow> unit io" where
  "run_test_script env schema num script w0 =
    (let w1 = py_print (''Running test script: '' @ script) w0;
         w2 = py_print (''Generating '' @ str_int num @ '' test instances'') w1 in
     case limit_complexity schema of
       Inl e \<Rightarrow> (Inl e, w2)
     | Inr limited_schema \<Rightarrow>
         (case from_schema env limited_schema of
            Inl e \<Rightarrow> (Inl e, w2)
          | Inr strategy \<Rightarrow>
              (let w3 = py_print ''Starting test execution'' w2 in
               case run_given env strategy num (test_instance env script) w3 of
                 (Inl e, w4) \<Rightarrow> (Inl e, w4)
               | (Inr u, w4) \<Rightarrow> (Inr (), py_print ''Finished test execution'' w4))))"

section \<open>The CLI Driver\<close>

text \<open>The parsed arguments: \<^verbatim>\<open>schema\<close>, \<^verbatim>\<open>--num\<close>, \<^verbatim>\<open>--seed\<close>, \<^verbatim>\<open>--script\<close>.\<close>

record args =
  arg_schema :: string
  arg_num :: int
  arg_seed :: "int option"
  arg_script :: "string option"

text \<open>
  How \<^verbatim>\<open>main()\<close> ends: it returns, it calls \<^verbatim>\<open>sys.exit\<close>, or an exception leaves it
  uncaught.
\<close>

datatype outcome = Returned | SysExit int | Uncaught exn

text \<open>
  \<^verbatim>\<open>if args.seed is not None: print(...); st.random.seed(args.seed)\<close>
\<close>

definition set_seed :: "'s env \<Rightarrow> int option \<Rightarrow> unit io" where
  "set_seed env seed w =
     (case seed of
        None \<Rightarrow> (Inr (), w)
      | Some n \<Rightarrow>
          (let w1 = py_print (''Setting random seed to '' @ str_int n) w in
           case seed_random env n of None \<Rightarrow> (Inr (), w1) | Some e \<Rightarrow> (Inl e, w1)))"

text \<open>
  The body of the second \<^verbatim>\<open>try\<close>: \<^verbatim>\<open>if args.script\<close> holds for a script that is
  neither \<^verbatim>\<open>None\<close> nor the empty string.
\<close>

definition run_selected :: "'s env \<Rightarrow> args \<Rightarrow> json \<Rightarrow> unit io" where
  "run_selected env a schema w =
     (case arg_script a of
        None \<Rightarrow> generate_json_instances env schema (arg_num a) (arg_seed a) w
      | Some script \<Rightarrow>
          if script \<noteq> [] then run_test_script env schema (arg_num a) script w
          else generate_json_instances env schema (arg_num a) (arg_seed a) w)"

text \<open>The text of the first \<^verbatim>\<open>print\<close> of \<^verbatim>\<open>main\<close>.\<close>

definition received_arguments :: "args \<Rightarrow> string" where
  "received_arguments a =
     ''Received arguments: schema='' @ arg_schema a @ '', num='' @ str_int (arg_num a) @
     '', seed='' @ str_opt_int (arg_seed a) @ '', script='' @ str_opt (arg_script a)"

definition main :: "'s env \<Rightarrow> args \<Rightarrow> world \<Rightarrow> outcome \<times> world" where
  "main env a w0 =
    (let w1 = py_print (received_arguments a) w0 in
     case load_schema env (arg_schema a) w1 of
       (Inl e, w2) \<Rightarrow>
         if is_ValueError e then (SysExit 1, py_eprint (''Error: '' @ exn_str e) w2)
         else (Uncaught e, w2)
     | (Inr schema, w2) \<Rightarrow>
         (case set_seed env (arg_seed a) w2 of
            (Inl e, w3) \<Rightarrow> (Uncaught e, w3)
          | (Inr u, w3) \<Rightarrow>
              (case run_selected env a schema w3 of
                 (Inl e, w4) \<Rightarrow> (SysExit 1, py_eprint (''Error: '' @ exn_str e) w4)
               | (Inr u', w4) \<Rightarrow> (Returned, w4))))"

text \<open>
  The script as a process: \<^verbatim>\<open>print("Starting CLI execution"); main();
  print("CLI execution completed")\<close>, and the exit status. An uncaught exception ends the
  process with status 1 (the traceback the interpreter writes is not part of \<open>stderr\<close>
  here).
\<close>

definition cli :: "'s env \<Rightarrow> args \<Rightarrow> world \<Rightarrow> int \<times> world" where
  "cli env a w0 =
    (case main env a (py_print ''Starting CLI execution'' w0) of
       (Returned, w) \<Rightarrow> (0, py_print ''CLI execution completed'' w)
     | (SysExit n, w) \<Rightarrow> (n, w)
     | (Uncaught e, w) \<Rightarrow> (1, w))"

section \<open>The external generation capability, as the specification describes it\<close>

text \<open>
  Modelled from the spec: the generation engine behind \<^verbatim>\<open>@given\<close> and \<^verbatim>\<open>@settings\<close>
  is not part of the sources. The specification describes it: the Instance Generator
  "drives N generation trials", it is to "produce that many instances by repeated
  invocation of the external generation capability"; "generation and script execution
  proceed strictly sequentially: instance i+1 is not generated until instance i's
  validation (if any) completes"; a generation failure "propagates as a fatal error";
  and "the first failure terminates the whole run". \<open>draw i\<close> is the \<open>i\<close>-th instance
  the capability generates, or its failure; \<open>spec_trials draw body i n\<close> runs \<open>n\<close>
  trials from the \<open>i\<close>-th on.
\<close>

fun spec_trials :: "(nat \<Rightarrow> exn + json) \<Rightarrow> (json \<Rightarrow> unit io) \<Rightarrow> nat \<Rightarrow> nat \<Rightarrow> unit io" where
  "spec_trials draw body i 0 w = (Inr (), w)"
| "spec_trials draw body i (Suc n) w =
     (case draw i of
        Inl e \<Rightarrow> (Inl e, w)
      | Inr inst \<Rightarrow>
          (case body inst w of
             (Inl e, w') \<Rightarrow> (Inl e, w')
           | (Inr u, w') \<Rightarrow> spec_trials draw body (Suc i) n w'))"

definition spec_given ::
  "('s \<Rightarrow> nat \<Rightarrow> exn + json) \<Rightarrow> 's \<Rightarrow> int \<Rightarrow> (json \<Rightarrow> unit io) \<Rightarrow> unit io" where
  "spec_given draw strategy num body w = spec_trials (draw strategy) body 0 (nat num) w"

text \<open>
  Modelled from the spec: an instance is "a JSON value the generation capability claims
  conforms to a given schema". Conformance is that of JSON Schema, for the keywords
  \<open>type\<close> (with the type names \<open>array\<close> and \<open>integer\<close>), \<open>maxItems\<close> and \<open>items\<close>; any
  other keyword is not looked at.
\<close>

fun type_ok :: "json option \<Rightarrow> json \<Rightarrow> bool" where
  "type_ok (Some (JStr t)) x =
     (if t = ''array'' then (case x of JList xs \<Rightarrow> True | _ \<Rightarrow> False)
      else if t = ''integer'' then (case x of JInt n \<Rightarrow> True | _ \<Rightarrow> False)
      else True)"
| "type_ok t x = True"

fun conforms :: "json \<Rightarrow> json \<Rightarrow> bool" where
  "conforms (JDict s) (JList xs) =
     (type_ok (map_of s ''type'') (JList xs) \<and>
      (case map_of s ''maxItems'' of
         None \<Rightarrow> True
       | Some m \<Rightarrow>
           (case py_num m of None \<Rightarrow> True | Some r \<Rightarrow> fl_le (Finite (of_nat (length xs))) r)) \<and>
      (case map_of s ''items'' of
         None \<Rightarrow> True
       | Some it \<Rightarrow> list_all (conforms it) xs))"
| "conforms (JDict s) x = type_ok (map_of s ''type'') x"
| "conforms s x = True"

section \<open>A small world to run the program in\<close>

text \<open>
  A file system with three files (the name of the third is itself a JSON text), a
  parser that knows the texts used below, a serialiser
  for lists of one int, the engine of the specification drawing the lists \<open>[0]\<close>, \<open>[1]\<close>, ...,
  and three scripts: \<^verbatim>\<open>./pass.sh\<close> exits with 0, \<^verbatim>\<open>./fail.sh\<close> with 1, and
  \<^verbatim>\<open>./picky.sh\<close> with 1 when \<^verbatim>\<open>testcase.json\<close> holds \<^verbatim>\<open>[1]\<close> and with 0 otherwise.
\<close>

definition world0 :: world where
  "world0 = \<lparr>stdout = [], stderr = [], testcase_json = None\<rparr>"

definition demo_open :: "string \<Rightarrow> open_result" where
  \<open>demo_open path =
     (if path = ''schema.json'' then Opened ''{"type": "integer"}''
      else if path = ''bad.json'' then Opened ''not json''
      else if path = ''{"type": "string"}'' then Opened ''not json''
      else FileNotFound)\<close>

definition demo_loads :: "string \<Rightarrow> string + json" where
  \<open>demo_loads s =
     (if s = ''{"type": "integer"}'' then Inr (JDict [(''type'', JStr ''integer'')])
      else if s = ''{"type": "string"}'' then Inr (JDict [(''type'', JStr ''string'')])
      else if s = ''{"type": "array", "items": {"type": "integer"}}''
        then Inr (JDict [(''type'', JStr ''array''),
                         (''items'', JDict [(''type'', JStr ''integer'')])])
      else Inl ''Expecting value: line 1 column 1 (char 0)'')\<close>

fun demo_dumps :: "json \<Rightarrow> string" where
  "demo_dumps (JList [JInt n]) = ''['' @ str_int n @ '']''"
| "demo_dumps x = ''null''"

definition demo_draw :: "json \<Rightarrow> nat \<Rightarrow> exn + json" where
  "demo_draw strategy i = Inr (JList [JInt (int i)])"

definition demo_script :: "string \<Rightarrow> world \<Rightarrow> exn + (int \<times> string \<times> string)" where
  "demo_script script w =
     (if script = ''./pass.sh'' then Inr (0, ''ok'', [])
      else if script = ''./fail.sh'' then Inr (1, ''rejected'', ''bad instance'')
      else if script = ''./picky.sh'' then
        (if testcase_json w = Some ''[1]'' then Inr (1, ''rejected'', ''bad instance'')
         else Inr (0, ''ok'', []))
      else Inl (OSError ''[Errno 2] No such file or directory''))"

definition demo_env :: "json env" where
  "demo_env = \<lparr>fs_open = demo_open, json_loads = demo_loads, json_dumps = demo_dumps,
     json_dumps_indent = demo_dumps, seed_random = (\<lambda>n. None), from_schema = Inr,
     run_given = spec_given demo_draw, subprocess_run = demo_script\<rparr>"

section \<open>Properties of the Complexity Limiter\<close>

subsection \<open>One iteration of the loop\<close>

lemma limit_items_step:
  "limit_items ((key, value) # rest) d =
     (case type_bound key value of
        Some (bk, dflt, c) \<Rightarrow>
          (case py_min (dict_get d bk (JInt dflt)) c of
             Inl e \<Rightarrow> Inl e
           | Inr m \<Rightarrow> limit_items rest (AList.update bk m d))
      | None \<Rightarrow>
          if is_container value then
            (case limit_complexity value of
               Inl e \<Rightarrow> Inl e
             | Inr v' \<Rightarrow> limit_items rest (AList.update key v' d))
          else limit_items rest d)"
proof -
  let ?A = "key = ''type'' \<and> value = JStr ''array''"
  let ?B = "key = ''type'' \<and> value = JStr ''object''"
  let ?C = "key = ''type'' \<and> value \<in> set [JStr ''string'', JStr ''number'', JStr ''integer'']"
  consider (a) ?A | (b) "\<not> ?A" ?B | (c) "\<not> ?A" "\<not> ?B" ?C | (n) "\<not> ?A" "\<not> ?B" "\<not> ?C"
    by blast
  then show ?thesis
  proof cases
    case a
    have "type_bound key value = Some (''maxItems'', 10, 5)"
      by (simp only: type_bound_def if_P[OF a])
    then show ?thesis
      by (simp only: limit_items.simps if_P[OF a] option.case prod.case)
  next
    case b
    have "type_bound key value = Some (''maxProperties'', 10, 5)"
      by (simp only: type_bound_def if_not_P[OF b(1)] if_P[OF b(2)])
    then show ?thesis
      by (simp only: limit_items.simps if_not_P[OF b(1)] if_P[OF b(2)] option.case prod.case)
  next
    case c
    have "type_bound key value = Some (''maxLength'', 100, 20)"
      by (simp only: type_bound_def if_not_P[OF c(1)] if_not_P[OF c(2)] if_P[OF c(3)])
    then show ?thesis
      by (simp only: limit_items.simps if_not_P[OF c(1)] if_not_P[OF c(2)] if_P[OF c(3)]
          option.case prod.case)
  next
    case n
    have "type_bound key value = None"
      by (simp only: type_bound_def if_not_P[OF n(1)] if_not_P[OF n(2)] if_not_P[OF n(3)])
    then show ?thesis
      by (simp only: limit_items.simps if_not_P[OF n(1)] if_not_P[OF n(2)] if_not_P[OF n(3)]
          option.case)
  qed
qed

declare limit_items.simps(2) [simp del]

lemma type_bound_key: "type_bound k v = Some b \<Longrightarrow> k = ''type'' \<and> \<not> is_container v"
  unfolding type_bound_def by (cases v) (simp_all split: if_splits)

lemma type_bound_not_type: "k \<noteq> ''type'' \<Longrightarrow> type_bound k v = None"
  unfolding type_bound_def by (simp only: if_False simp_thms)

lemma items_bound_None: "''type'' \<notin> fst ` set xs \<Longrightarrow> items_bound xs = None"
proof (induction xs)
  case Nil
  show ?case by simp
next
  case (Cons kv xs)
  obtain k v where kv: "kv = (k, v)" by (cases kv)
  with Cons.prems have "k \<noteq> ''type''" by auto
  then have "type_bound k v = None" by (rule type_bound_not_type)
  with Cons kv show ?case by simp
qed

lemma items_bound_map_of:
  "distinct (map fst xs) \<Longrightarrow>
   items_bound xs = (case map_of xs ''type'' of None \<Rightarrow> None | Some v \<Rightarrow> type_bound ''type'' v)"
proof (induction xs)
  case Nil
  then show ?case by simp
next
  case (Cons kv xs)
  obtain k v where kv: "kv = (k, v)" by (cases kv)
  show ?case
  proof (cases "k = ''type''")
    case True
    with Cons.prems kv have "''type'' \<notin> fst ` set xs" by auto
    then have "items_bound xs = None" by (rule items_bound_None)
    with True kv show ?thesis by (simp split: option.splits)
  next
    case False
    then have "type_bound k v = None" by (rule type_bound_not_type)
    with False kv Cons show ?thesis by simp
  qed
qed

lemma py_min_scalar: "py_min x c = Inr m \<Longrightarrow> \<not> is_container x \<and> \<not> is_container m"
  by (cases x) (auto simp: py_min_def split: if_splits)

lemma keys_update:
  "map fst (AList.update k v d) = (if k \<in> fst ` set d then map fst d else map fst d @ [k])"
  by (induction d) auto

lemma map_of_key_in: "map_of d k = Some v \<Longrightarrow> k \<in> fst ` set d"
  by (induction d) (auto split: if_splits)

lemma limit_complexity_container:
  "is_container v \<Longrightarrow> limit_complexity v = Inr v' \<Longrightarrow> is_container v'"
  by (cases v) (auto split: sum.splits)

lemma snap_inv_tail: "snap_inv (kv # rest) d \<Longrightarrow> snap_inv rest d"
  by (simp add: snap_inv_def)

lemma snap_inv_update_other:
  "snap_inv rest d \<Longrightarrow> k \<notin> fst ` set rest \<Longrightarrow> snap_inv rest (AList.update k v d)"
  by (force simp: snap_inv_def update_conv')

lemma snap_inv_update_bound:
  assumes "snap_inv rest d" and "py_min (dict_get d bk dflt) c = Inr m"
  shows "snap_inv rest (AList.update bk m d)"
  unfolding snap_inv_def
proof (clarify)
  fix k v assume kv: "(k, v) \<in> set rest" and cont: "is_container v"
  from assms(1) kv cont have lk: "map_of d k = Some v" by (auto simp: snap_inv_def)
  have "k \<noteq> bk"
  proof
    assume "k = bk"
    with lk have "dict_get d bk dflt = v" by (simp add: dict_get_def)
    with assms(2) cont show False by (auto dest: py_min_scalar)
  qed
  with lk show "map_of (AList.update bk m d) k = Some v" by (simp add: update_conv')
qed

text \<open>
  What a successful iteration did, by the branch taken, with the invariant for the rest
  of the loop.
\<close>

lemma limit_items_Cons_cases [consumes 3, case_names bound cont skip]:
  assumes run: "limit_items ((k, v) # rest) d = Inr d'"
    and inv: "snap_inv ((k, v) # rest) d"
    and dist: "distinct (map fst ((k, v) # rest))"
  obtains
    (bound) bk dflt c m where "type_bound k v = Some (bk, dflt, c)" "k = ''type''" "\<not> is_container v"
      "py_min (dict_get d bk (JInt dflt)) c = Inr m"
      "limit_items rest (AList.update bk m d) = Inr d'"
      "snap_inv rest (AList.update bk m d)" "items_bound rest = None"
  | (cont) v' where "type_bound k v = None" "is_container v" "limit_complexity v = Inr v'"
      "map_of d k = Some v"
      "limit_items rest (AList.update k v' d) = Inr d'"
      "snap_inv rest (AList.update k v' d)"
  | (skip) "type_bound k v = None" "\<not> is_container v" "limit_items rest d = Inr d'"
      "snap_inv rest d"
proof (cases "type_bound k v")
  case (Some b)
  obtain bk dflt c where b: "b = (bk, dflt, c)" by (cases b)
  from Some have kt: "k = ''type''" and nc: "\<not> is_container v" by (auto dest: type_bound_key)
  with dist have none: "items_bound rest = None" by (simp add: items_bound_None)
  from run Some b obtain m where
    m: "py_min (dict_get d bk (JInt dflt)) c = Inr m" and
    run': "limit_items rest (AList.update bk m d) = Inr d'"
    by (auto simp: limit_items_step split: sum.splits)
  from inv have "snap_inv rest d" by (rule snap_inv_tail)
  then have "snap_inv rest (AList.update bk m d)" using m by (rule snap_inv_update_bound)
  with Some b kt nc m run' none show ?thesis by (intro bound) auto
next
  case None
  from inv have inv': "snap_inv rest d" by (rule snap_inv_tail)
  show ?thesis
  proof (cases "is_container v")
    case True
    from run None True obtain v' where
      v': "limit_complexity v = Inr v'" and run': "limit_items rest (AList.update k v' d) = Inr d'"
      by (auto simp: limit_items_step split: sum.splits)
    from inv True have lk: "map_of d k = Some v" by (simp add: snap_inv_def)
    from dist have "k \<notin> fst ` set rest" by auto
    with inv' have "snap_inv rest (AList.update k v' d)" by (rule snap_inv_update_other)
    with None True v' lk run' show ?thesis by (intro cont) auto
  next
    case False
    from run None False have "limit_items rest d = Inr d'" by (simp add: limit_items_step)
    with None False inv' show ?thesis by (intro skip) auto
  qed
qed

lemma limit_items_keys:
  "distinct (map fst xs) \<Longrightarrow> snap_inv xs d \<Longrightarrow> limit_items xs d = Inr d' \<Longrightarrow>
   map fst d' = map fst d @
     (case items_bound xs of
        Some (bk, dflt, c) \<Rightarrow> if bk \<in> fst ` set d then [] else [bk]
      | None \<Rightarrow> [])"
proof (induction xs arbitrary: d)
  case Nil
  then show ?case by simp
next
  case (Cons kv rest)
  obtain k v where kv: "kv = (k, v)" by (cases kv)
  from Cons.prems kv have dist: "distinct (map fst rest)" by auto
  from Cons.prems(3,2,1)[unfolded kv] show ?case
  proof (cases rule: limit_items_Cons_cases)
    case (bound bk dflt c m)
    from Cons.IH[OF dist bound(6) bound(5)] bound show ?thesis
      by (auto simp add: keys_update kv)
  next
    case (cont v')
    from cont(4) have kin: "k \<in> fst ` set d" by (rule map_of_key_in)
    then have "fst ` set (AList.update k v' d) = fst ` set d" by (auto simp: dom_update)
    with Cons.IH[OF dist cont(6) cont(5)] cont(1) kin show ?thesis
      by (simp add: keys_update kv split: option.splits)
  next
    case skip
    from Cons.IH[OF dist skip(4) skip(3)] skip show ?thesis by (simp add: kv)
  qed
qed

lemma limit_items_other:
  "distinct (map fst xs) \<Longrightarrow> snap_inv xs d \<Longrightarrow> limit_items xs d = Inr d' \<Longrightarrow>
   (\<And>bk dflt c. items_bound xs = Some (bk, dflt, c) \<Longrightarrow> k \<noteq> bk) \<Longrightarrow>
   (\<And>v. (k, v) \<in> set xs \<Longrightarrow> \<not> is_container v) \<Longrightarrow>
   map_of d' k = map_of d k"
proof (induction xs arbitrary: d)
  case Nil
  then show ?case by simp
next
  case (Cons kv rest)
  obtain k0 v0 where kv: "kv = (k0, v0)" by (cases kv)
  from Cons.prems kv have dist: "distinct (map fst rest)" by auto
  have nc: "\<And>v. (k, v) \<in> set rest \<Longrightarrow> \<not> is_container v" using Cons.prems(5) by auto
  from Cons.prems(3,2,1)[unfolded kv] show ?case
  proof (cases rule: limit_items_Cons_cases)
    case (bound bk dflt c m)
    from bound(1) Cons.prems(4) kv have "k \<noteq> bk" by simp
    moreover from Cons.IH[OF dist bound(6) bound(5) _ nc] bound(7)
    have "map_of d' k = map_of (AList.update bk m d) k" by simp
    ultimately show ?thesis by (simp add: update_conv')
  next
    case (cont v')
    from cont(2) Cons.prems(5) kv have "k \<noteq> k0" by auto
    moreover have "\<And>bk dflt c. items_bound rest = Some (bk, dflt, c) \<Longrightarrow> k \<noteq> bk"
      using Cons.prems(4) cont(1) kv by simp
    from Cons.IH[OF dist cont(6) cont(5) this nc]
    have "map_of d' k = map_of (AList.update k0 v' d) k" by simp
    ultimately show ?thesis by (simp add: update_conv')
  next
    case skip
    have "\<And>bk dflt c. items_bound rest = Some (bk, dflt, c) \<Longrightarrow> k \<noteq> bk"
      using Cons.prems(4) skip(1) kv by simp
    from Cons.IH[OF dist skip(4) skip(3) this nc] show ?thesis by simp
  qed
qed

text \<open>A key the rest of the loop does not write keeps its value.\<close>

lemma limit_items_untouched:
  "distinct (map fst xs) \<Longrightarrow> snap_inv xs d \<Longrightarrow> limit_items xs d = Inr d' \<Longrightarrow>
   items_bound xs = None \<Longrightarrow> k \<notin> fst ` set xs \<Longrightarrow> map_of d' k = map_of d k"
  by (rule limit_items_other) force+

lemma dict_get_update:
  "dict_get (AList.update k v d) k' dflt = (if k' = k then v else dict_get d k' dflt)"
  by (simp add: dict_get_def update_conv')

lemma limit_items_bound:
  "distinct (map fst xs) \<Longrightarrow> snap_inv xs d \<Longrightarrow> limit_items xs d = Inr d' \<Longrightarrow>
   items_bound xs = Some (bk, dflt, c) \<Longrightarrow>
   \<exists>m. py_min (dict_get d bk (JInt dflt)) c = Inr m \<and> map_of d' bk = Some m"
proof (induction xs arbitrary: d)
  case Nil
  then show ?case by simp
next
  case (Cons kv rest)
  obtain k0 v0 where kv: "kv = (k0, v0)" by (cases kv)
  from Cons.prems kv have dist: "distinct (map fst rest)" by auto
  from Cons.prems(3,2,1)[unfolded kv] show ?case
  proof (cases rule: limit_items_Cons_cases)
    case (bound bk0 dflt0 c0 m)
    from bound(1) Cons.prems(4) kv have eq: "bk0 = bk" "dflt0 = dflt" "c0 = c" by simp_all
    have "map_of d' bk = map_of (AList.update bk m d) bk"
    proof (rule limit_items_other[OF dist bound(6)[unfolded eq] bound(5)[unfolded eq]])
      fix b1 d1 c1 assume "items_bound rest = Some (b1, d1, c1)"
      with bound(7) show "bk \<noteq> b1" by simp
    next
      fix w assume w: "(bk, w) \<in> set rest"
      show "\<not> is_container w"
      proof
        assume "is_container w"
        with bound(6)[unfolded eq] w have "map_of (AList.update bk m d) bk = Some w"
          by (auto simp: snap_inv_def)
        then have "m = w" by (simp add: update_conv')
        with bound(4) \<open>is_container w\<close> show False by (auto dest: py_min_scalar)
      qed
    qed
    then have "map_of d' bk = Some m" by (simp add: update_conv')
    with bound(4) eq show ?thesis by simp
  next
    case (cont v')
    from cont(1) Cons.prems(4) kv have ib: "items_bound rest = Some (bk, dflt, c)" by simp
    from Cons.IH[OF dist cont(6) cont(5) ib] obtain m where
      m: "py_min (dict_get (AList.update k0 v' d) bk (JInt dflt)) c = Inr m"
      and l: "map_of d' bk = Some m" by blast
    have "k0 \<noteq> bk"
    proof
      assume "k0 = bk"
      with m have "py_min v' c = Inr m" by (simp add: dict_get_update)
      moreover from cont(2,3) have "is_container v'" by (rule limit_complexity_container)
      ultimately show False by (auto dest: py_min_scalar)
    qed
    with m have "py_min (dict_get d bk (JInt dflt)) c = Inr m" by (simp add: dict_get_update)
    with l show ?thesis by blast
  next
    case skip
    from skip(1) Cons.prems(4) kv have ib: "items_bound rest = Some (bk, dflt, c)" by simp
    from Cons.IH[OF dist skip(4) skip(3) ib] show ?thesis .
  qed
qed

lemma limit_items_container:
  "distinct (map fst xs) \<Longrightarrow> snap_inv xs d \<Longrightarrow> limit_items xs d = Inr d' \<Longrightarrow>
   (k, v) \<in> set xs \<Longrightarrow> is_container v \<Longrightarrow>
   \<exists>v'. limit_complexity v = Inr v' \<and> map_of d' k = Some v'"
proof (induction xs arbitrary: d)
  case Nil
  then show ?case by simp
next
  case (Cons kv rest)
  obtain k0 v0 where kv: "kv = (k0, v0)" by (cases kv)
  from Cons.prems kv have dist: "distinct (map fst rest)" and k0: "k0 \<notin> fst ` set rest" by auto
  from Cons.prems(3,2,1)[unfolded kv] show ?case
  proof (cases rule: limit_items_Cons_cases)
    case (bound bk dflt c m)
    from bound(3) Cons.prems(4,5) kv have "(k, v) \<in> set rest" by auto
    from Cons.IH[OF dist bound(6) bound(5) this Cons.prems(5)] show ?thesis .
  next
    case (cont v')
    show ?thesis
    proof (cases "(k, v) \<in> set rest")
      case True
      from Cons.IH[OF dist cont(6) cont(5) True Cons.prems(5)] show ?thesis .
    next
      case False
      with Cons.prems(4) kv have eq: "k = k0" "v = v0" by auto
      have "map_of d' k0 = map_of (AList.update k0 v' d) k0"
      proof (rule limit_items_other[OF dist cont(6) cont(5)])
        fix bk dflt c assume ib: "items_bound rest = Some (bk, dflt, c)"
        show "k0 \<noteq> bk"
        proof
          assume "k0 = bk"
          from limit_items_bound[OF dist cont(6) cont(5) ib] obtain m where
            "py_min (dict_get (AList.update k0 v' d) bk (JInt dflt)) c = Inr m" by blast
          with \<open>k0 = bk\<close> have "py_min v' c = Inr m" by (simp add: dict_get_update)
          moreover from cont(2,3) have "is_container v'" by (rule limit_complexity_container)
          ultimately show False by (auto dest: py_min_scalar)
        qed
      next
        fix w assume "(k0, w) \<in> set rest"
        with k0 show "\<not> is_container w" by force
      qed
      then have "map_of d' k0 = Some v'" by (simp add: update_conv')
      with cont(3) eq show ?thesis by simp
    qed
  next
    case skip
    from skip(2) Cons.prems(4,5) kv have "(k, v) \<in> set rest" by auto
    from Cons.IH[OF dist skip(4) skip(3) this Cons.prems(5)] show ?thesis .
  qed
qed

subsection \<open>A dict the loop leaves as it is\<close>

lemma limit_items_fix:
  assumes cont: "\<And>k v. (k, v) \<in> set xs \<Longrightarrow> is_container v \<Longrightarrow>
      limit_complexity v = Inr v \<and> map_of d k = Some v"
    and bnd: "\<And>k v bk dflt c. (k, v) \<in> set xs \<Longrightarrow> type_bound k v = Some (bk, dflt, c) \<Longrightarrow>
      \<exists>m. map_of d bk = Some m \<and> py_min m c = Inr m"
  shows "limit_items xs d = Inr d"
  using assms
proof (induction xs)
  case Nil
  show ?case by simp
next
  case (Cons kv rest)
  obtain k v where kv: "kv = (k, v)" by (cases kv)
  have IH: "limit_items rest d = Inr d"
  proof (rule Cons.IH)
    fix k v assume "(k, v) \<in> set rest" "is_container v"
    then show "limit_complexity v = Inr v \<and> map_of d k = Some v"
      using Cons.prems(1)[of k v] by simp
  next
    fix k v bk dflt c assume "(k, v) \<in> set rest" "type_bound k v = Some (bk, dflt, c)"
    then show "\<exists>m. map_of d bk = Some m \<and> py_min m c = Inr m"
      using Cons.prems(2)[of k v bk dflt c] by simp
  qed
  show ?case
  proof (cases "type_bound k v")
    case (Some b)
    obtain bk dflt c where b: "b = (bk, dflt, c)" by (cases b)
    from Cons.prems(2)[of k v bk dflt c] kv Some b obtain m where
      m: "map_of d bk = Some m" "py_min m c = Inr m" by auto
    from m(1) have "dict_get d bk (JInt dflt) = m" by (simp add: dict_get_def)
    moreover from m(1) have "AList.update bk m d = d" by (rule update_triv)
    ultimately show ?thesis using Some b m(2) IH kv by (simp add: limit_items_step)
  next
    case None
    show ?thesis
    proof (cases "is_container v")
      case True
      from Cons.prems(1)[of k v] kv True have
        "limit_complexity v = Inr v" "map_of d k = Some v" by auto
      moreover from this(2) have "AList.update k v d = d" by (rule update_triv)
      ultimately show ?thesis using None True IH kv by (simp add: limit_items_step)
    next
      case False
      with None IH kv show ?thesis by (simp add: limit_items_step)
    qed
  qed
qed

lemma py_min_idem: "py_min x c = Inr m \<Longrightarrow> py_min m c = Inr m"
  by (cases x) (auto simp: py_min_def split: if_splits)

subsection \<open>The list comprehension\<close>

lemma limit_list_nth:
  "limit_list xs = Inr ys \<Longrightarrow>
   length ys = length xs \<and> (\<forall>i < length xs. limit_complexity (xs ! i) = Inr (ys ! i))"
proof (induction xs arbitrary: ys)
  case Nil
  then show ?case by simp
next
  case (Cons x xs)
  from Cons.prems obtain y ys' where
    y: "limit_complexity x = Inr y" and ys': "limit_list xs = Inr ys'" and ys: "ys = y # ys'"
    by (auto split: sum.splits)
  from Cons.IH[OF ys'] y ys show ?case by (auto simp: nth_Cons split: nat.splits)
qed

lemma limit_list_fix:
  "(\<And>x. x \<in> set xs \<Longrightarrow> limit_complexity x = Inr x) \<Longrightarrow> limit_list xs = Inr xs"
  by (induction xs) auto

lemma limit_list_set:
  "limit_list xs = Inr ys \<Longrightarrow> y \<in> set ys \<Longrightarrow> \<exists>x \<in> set xs. limit_complexity x = Inr y"
proof (induction xs arbitrary: ys)
  case Nil
  then show ?case by simp
next
  case (Cons x xs)
  from Cons.prems(1) obtain y0 ys' where
    y0: "limit_complexity x = Inr y0" and ys': "limit_list xs = Inr ys'" and ys: "ys = y0 # ys'"
    by (auto split: sum.splits)
  from Cons.prems(2) ys have "y = y0 \<or> y \<in> set ys'" by simp
  then show ?case
  proof
    assume "y = y0" with y0 show ?thesis by simp
  next
    assume "y \<in> set ys'"
    from Cons.IH[OF ys' this] show ?thesis by auto
  qed
qed

subsection \<open>The loop on a whole dict\<close>

lemma snap_inv_self: "distinct (map fst kvs) \<Longrightarrow> snap_inv kvs kvs"
  by (auto simp: snap_inv_def)

lemma dict_keys:
  assumes "distinct (map fst kvs)" "limit_items kvs kvs = Inr d'"
  shows "map fst d' = map fst kvs @
     (case items_bound kvs of
        Some (bk, dflt, c) \<Rightarrow> if bk \<in> fst ` set kvs then [] else [bk]
      | None \<Rightarrow> [])"
  using assms(1) snap_inv_self[OF assms(1)] assms(2) by (rule limit_items_keys)

lemma dict_distinct:
  assumes "distinct (map fst kvs)" "limit_items kvs kvs = Inr d'"
  shows "distinct (map fst d')"
  using assms(1) dict_keys[OF assms] by (auto split: option.splits if_splits)

lemma dict_container:
  assumes "distinct (map fst kvs)" "limit_items kvs kvs = Inr d'"
    and "map_of kvs k = Some v" "is_container v"
  shows "\<exists>v'. limit_complexity v = Inr v' \<and> map_of d' k = Some v'"
  using assms(1) snap_inv_self[OF assms(1)] assms(2) map_of_SomeD[OF assms(3)] assms(4)
  by (rule limit_items_container)

lemma dict_bound:
  assumes "distinct (map fst kvs)" "limit_items kvs kvs = Inr d'"
    and "items_bound kvs = Some (bk, dflt, c)"
  shows "\<exists>m. py_min (dict_get kvs bk (JInt dflt)) c = Inr m \<and> map_of d' bk = Some m"
  using assms(1) snap_inv_self[OF assms(1)] assms(2,3) by (rule limit_items_bound)

lemma dict_other:
  assumes "distinct (map fst kvs)" "limit_items kvs kvs = Inr d'"
    and "\<And>bk dflt c. items_bound kvs = Some (bk, dflt, c) \<Longrightarrow> k \<noteq> bk"
    and "\<And>v. map_of kvs k = Some v \<Longrightarrow> \<not> is_container v"
  shows "map_of d' k = map_of kvs k"
proof (rule limit_items_other[OF assms(1) snap_inv_self[OF assms(1)] assms(2)])
  fix bk dflt c assume "items_bound kvs = Some (bk, dflt, c)"
  then show "k \<noteq> bk" by (rule assms(3))
next
  fix v assume "(k, v) \<in> set kvs"
  with assms(1) have "map_of kvs k = Some v" by simp
  then show "\<not> is_container v" by (rule assms(4))
qed

text \<open>Every entry of the result, by where it comes from.\<close>

lemma dict_result_cases:
  assumes dist: "distinct (map fst kvs)" and run: "limit_items kvs kvs = Inr d'"
    and l: "map_of d' k = Some v'"
  obtains
    (bound) bk dflt c where "items_bound kvs = Some (bk, dflt, c)" "k = bk"
      "py_min (dict_get kvs bk (JInt dflt)) c = Inr v'"
  | (cont) v where "map_of kvs k = Some v" "is_container v" "limit_complexity v = Inr v'"
  | (same) "map_of kvs k = Some v'" "\<not> is_container v'"
proof (cases "\<exists>dflt c. items_bound kvs = Some (k, dflt, c)")
  case True
  then obtain dflt c where ib: "items_bound kvs = Some (k, dflt, c)" by blast
  from dict_bound[OF dist run ib] l have "py_min (dict_get kvs k (JInt dflt)) c = Inr v'" by auto
  with ib show ?thesis by (intro bound) auto
next
  case nb: False
  show ?thesis
  proof (cases "\<exists>v. map_of kvs k = Some v \<and> is_container v")
    case True
    then obtain v where v: "map_of kvs k = Some v" "is_container v" by blast
    from dict_container[OF dist run v] l have "limit_complexity v = Inr v'" by auto
    with v show ?thesis by (intro cont) auto
  next
    case False
    have "map_of d' k = map_of kvs k"
      by (rule dict_other[OF dist run]) (use nb False in \<open>auto\<close>)
    with l False show ?thesis by (intro same) auto
  qed
qed

subsection \<open>Idempotence\<close>

lemma type_bound_bk: "type_bound k v = Some (bk, dflt, c) \<Longrightarrow> bk \<noteq> ''type''"
  unfolding type_bound_def by (auto split: if_splits)

lemma items_bound_bk: "items_bound xs = Some (bk, dflt, c) \<Longrightarrow> bk \<noteq> ''type''"
  by (induction xs) (auto split: option.splits dest: type_bound_bk)

lemma dict_fixed:
  assumes dist: "distinct (map fst kvs)" and run: "limit_items kvs kvs = Inr d'"
    and IH: "\<And>k v v'. map_of kvs k = Some v \<Longrightarrow> limit_complexity v = Inr v' \<Longrightarrow>
      limit_complexity v' = Inr v'"
  shows "limit_items d' d' = Inr d'"
proof (rule limit_items_fix)
  have dist': "distinct (map fst d')" using dist run by (rule dict_distinct)
  {
    fix k v' assume kv: "(k, v') \<in> set d'" and c: "is_container v'"
    from dist' kv have l: "map_of d' k = Some v'" by simp
    from dist run l have "limit_complexity v' = Inr v'"
    proof (cases rule: dict_result_cases)
      case (bound bk dflt c)
      with c show ?thesis by (auto dest: py_min_scalar)
    next
      case (cont v)
      then show ?thesis by (auto intro: IH)
    next
      case same
      with c show ?thesis by simp
    qed
    with l show "limit_complexity v' = Inr v' \<and> map_of d' k = Some v'" by simp
  }
  {
    fix k v' bk dflt c
    assume kv: "(k, v') \<in> set d'" and tb: "type_bound k v' = Some (bk, dflt, c)"
    from tb have kt: "k = ''type''" and nc: "\<not> is_container v'" by (auto dest: type_bound_key)
    from dist' kv have l: "map_of d' k = Some v'" by simp
    from dist run l have orig: "map_of kvs ''type'' = Some v'"
    proof (cases rule: dict_result_cases)
      case (bound bk dflt c)
      with kt show ?thesis by (auto dest: items_bound_bk)
    next
      case (cont v)
      with nc show ?thesis by (auto dest: limit_complexity_container)
    next
      case same
      with kt show ?thesis by simp
    qed
    with dist tb kt have "items_bound kvs = Some (bk, dflt, c)"
      by (simp add: items_bound_map_of)
    from dict_bound[OF dist run this] obtain m where
      "py_min (dict_get kvs bk (JInt dflt)) c = Inr m" "map_of d' bk = Some m" by blast
    then show "\<exists>m. map_of d' bk = Some m \<and> py_min m c = Inr m"
      by (auto dest: py_min_idem)
  }
qed

lemma limit_complexity_fixed:
  "wf_json s \<Longrightarrow> limit_complexity s = Inr s' \<Longrightarrow> limit_complexity s' = Inr s'"
proof (induction s arbitrary: s' rule: json.induct)
  case (JList xs)
  from JList.prems(2) obtain ys where ys: "limit_list xs = Inr ys" and s': "s' = JList ys"
    by (auto split: sum.splits)
  have "limit_list ys = Inr ys"
  proof (rule limit_list_fix)
    fix y assume "y \<in> set ys"
    with ys obtain x where x: "x \<in> set xs" "limit_complexity x = Inr y"
      by (auto dest: limit_list_set)
    from JList.prems(1) x(1) have "wf_json x" by (simp add: list_all_iff)
    from JList.IH[OF x(1) this x(2)] show "limit_complexity y = Inr y" .
  qed
  with s' show ?case by simp
next
  case (JDict kvs)
  from JDict.prems(1) have dist: "distinct (map fst kvs)" by simp
  from JDict.prems(2) obtain d' where run: "limit_items kvs kvs = Inr d'" and s': "s' = JDict d'"
    by (auto split: sum.splits)
  have "limit_items d' d' = Inr d'"
  proof (rule dict_fixed[OF dist run])
    fix k v v' assume l: "map_of kvs k = Some v" and r: "limit_complexity v = Inr v'"
    from l have in_set: "(k, v) \<in> set kvs" by (rule map_of_SomeD)
    with JDict.prems(1) have "wf_json v" by (auto simp: list_all_iff)
    moreover have "v \<in> Basic_BNFs.snds (k, v)" by simp
    ultimately show "limit_complexity v' = Inr v'"
      using in_set r JDict.IH[of "(k, v)" v v'] by blast
  qed
  with s' show ?case by simp
qed simp_all

subsection \<open>Nodes of the tree\<close>

lemma at_path_container:
  "at_path v p = Some n \<Longrightarrow> is_container n \<Longrightarrow> is_container v"
  by (cases p; cases v) auto

lemma at_path_limit:
  "wf_json s \<Longrightarrow> limit_complexity s = Inr s' \<Longrightarrow> at_path s p = Some n \<Longrightarrow> is_container n \<Longrightarrow>
   \<exists>n'. at_path s' p = Some n' \<and> limit_complexity n = Inr n' \<and> wf_json n"
proof (induction p arbitrary: s s')
  case Nil
  then show ?case by simp
next
  case (Cons st p)
  show ?case
  proof (cases s)
    case (JDict kvs)
    with Cons.prems(3) obtain k v where st: "st = Key k" and l: "map_of kvs k = Some v"
      and at: "at_path v p = Some n"
      by (cases st) (auto split: option.splits)
    from at Cons.prems(4) have cv: "is_container v" by (rule at_path_container)
    from Cons.prems(1) JDict have dist: "distinct (map fst kvs)" by simp
    from Cons.prems(2) JDict obtain d' where run: "limit_items kvs kvs = Inr d'"
      and s': "s' = JDict d'" by (auto split: sum.splits)
    from dict_container[OF dist run l cv] obtain v' where
      v': "limit_complexity v = Inr v'" "map_of d' k = Some v'" by blast
    from l have "(k, v) \<in> set kvs" by (rule map_of_SomeD)
    with Cons.prems(1) JDict have "wf_json v" by (auto simp: list_all_iff)
    from Cons.IH[OF this v'(1) at Cons.prems(4)] v'(2) s' st show ?thesis by simp
  next
    case (JList xs)
    with Cons.prems(3) obtain i where st: "st = Idx i" and i: "i < length xs"
      and at: "at_path (xs ! i) p = Some n"
      by (cases st) (auto split: if_splits)
    from Cons.prems(2) JList obtain ys where ys: "limit_list xs = Inr ys" and s': "s' = JList ys"
      by (auto split: sum.splits)
    from limit_list_nth[OF ys] i have len: "length ys = length xs"
      and el: "limit_complexity (xs ! i) = Inr (ys ! i)" by auto
    from Cons.prems(1) JList i have "wf_json (xs ! i)" by (simp add: list_all_length)
    from Cons.IH[OF this el at Cons.prems(4)] len i s' st show ?thesis by simp
  qed (use Cons.prems(3) in auto)
qed

lemma at_path_dict:
  assumes "wf_json s" "limit_complexity s = Inr s'" "at_path s p = Some (JDict kvs)"
  obtains kvs' where "at_path s' p = Some (JDict kvs')" "limit_items kvs kvs = Inr kvs'"
    "distinct (map fst kvs)"
proof -
  from at_path_limit[OF assms] obtain n' where
    n': "at_path s' p = Some n'" "limit_complexity (JDict kvs) = Inr n'" "wf_json (JDict kvs)"
    by auto
  from n'(2) obtain kvs' where "limit_items kvs kvs = Inr kvs'" "n' = JDict kvs'"
    by (auto split: sum.splits)
  with n' that show ?thesis by simp
qed

subsection \<open>Bounds\<close>

lemma type_bound_array: "type_bound ''type'' (JStr ''array'') = Some (''maxItems'', 10, 5)"
  by (simp add: type_bound_def)

lemma type_bound_object: "type_bound ''type'' (JStr ''object'') = Some (''maxProperties'', 10, 5)"
  by (simp add: type_bound_def)

lemma type_bound_scalar:
  "t \<in> {''string'', ''number'', ''integer''} \<Longrightarrow>
   type_bound ''type'' (JStr t) = Some (''maxLength'', 100, 20)"
  by (auto simp add: type_bound_def)

lemma type_bound_range:
  "type_bound k v = Some (bk, dflt, c) \<Longrightarrow>
   k = ''type'' \<and>
   (v = JStr ''array'' \<and> bk = ''maxItems'' \<and> dflt = 10 \<and> c = 5 \<or>
    v = JStr ''object'' \<and> bk = ''maxProperties'' \<and> dflt = 10 \<and> c = 5 \<or>
    v \<in> {JStr ''string'', JStr ''number'', JStr ''integer''} \<and> bk = ''maxLength'' \<and>
      dflt = 100 \<and> c = 20)"
  unfolding type_bound_def by (simp split: if_splits)

text \<open>
  Claim C2. The limiter is idempotent: on every tree, applying it to its own result gives
  that result again (and an error of the first application is the error of both sides).
\<close>

theorem limit_complexity_idempotent:
  assumes "wf_json T"
  shows "(case limit_complexity T of Inl e \<Rightarrow> Inl e | Inr T' \<Rightarrow> limit_complexity T') =
     limit_complexity T"
proof (cases "limit_complexity T")
  case (Inl e)
  then show ?thesis by simp
next
  case (Inr T')
  with assms have "limit_complexity T' = Inr T'" by (rule limit_complexity_fixed)
  with Inr show ?thesis by simp
qed

theorem limit_complexity_idempotent_witness:
  "wf_json (JDict [(''type'', JStr ''array''), (''items'', JDict [(''type'', JStr ''string'')])]) \<and>
   limit_complexity (JDict [(''type'', JStr ''array''),
       (''items'', JDict [(''type'', JStr ''string'')])]) =
     Inr (JDict [(''type'', JStr ''array''),
       (''items'', JDict [(''type'', JStr ''string''), (''maxLength'', JInt 20)]),
       (''maxItems'', JInt 5)]) \<and>
   limit_complexity (JDict [(''type'', JStr ''array''),
       (''items'', JDict [(''type'', JStr ''string''), (''maxLength'', JInt 20)]),
       (''maxItems'', JInt 5)]) =
     Inr (JDict [(''type'', JStr ''array''),
       (''items'', JDict [(''type'', JStr ''string''), (''maxLength'', JInt 20)]),
       (''maxItems'', JInt 5)])"
proof -
  let ?T = "JDict [(''type'', JStr ''array''), (''items'', JDict [(''type'', JStr ''string'')])]"
  have h1: "wf_json ?T" by simp
  have h2: "limit_complexity ?T = Inr (JDict [(''type'', JStr ''array''),
       (''items'', JDict [(''type'', JStr ''string''), (''maxLength'', JInt 20)]),
       (''maxItems'', JInt 5)])"
    by (simp add: limit_items.simps py_min_def dict_get_def)
  from limit_complexity_idempotent[OF h1] h1 h2 show ?thesis by simp
qed

subsection \<open>What the limiter leaves alone\<close>

lemma items_bound_range:
  "items_bound xs = Some (bk, dflt, c) \<Longrightarrow> bk \<in> {''maxItems'', ''maxProperties'', ''maxLength''}"
proof (induction xs)
  case Nil
  then show ?case by simp
next
  case (Cons kv xs)
  obtain k v where kv: "kv = (k, v)" by (cases kv)
  show ?case
  proof (cases "type_bound k v")
    case None
    with Cons kv show ?thesis by simp
  next
    case (Some b)
    with Cons.prems kv have "type_bound k v = Some (bk, dflt, c)" by simp
    from type_bound_range[OF this] show ?thesis by auto
  qed
qed

lemma limit_complexity_scalar: "\<not> is_container s \<Longrightarrow> limit_complexity s = Inr s"
  by (cases s) simp_all

lemma dict_frame:
  assumes dist: "distinct (map fst kvs)" and run: "limit_items kvs kvs = Inr kvs'"
  shows "(\<exists>extra. map fst kvs' = map fst kvs @ extra \<and>
            set extra \<subseteq> {''maxItems'', ''maxProperties'', ''maxLength''}) \<and>
    (\<forall>k v. map_of kvs k = Some v \<and> is_container v \<longrightarrow>
       (\<exists>v'. limit_complexity v = Inr v' \<and> map_of kvs' k = Some v')) \<and>
    (\<forall>k. k \<notin> {''maxItems'', ''maxProperties'', ''maxLength''} \<longrightarrow>
       (\<forall>v. map_of kvs k = Some v \<and> \<not> is_container v \<longrightarrow> map_of kvs' k = Some v) \<and>
       (map_of kvs k = None \<longrightarrow> map_of kvs' k = None))"
proof (intro conjI allI impI)
  show "\<exists>extra. map fst kvs' = map fst kvs @ extra \<and>
            set extra \<subseteq> {''maxItems'', ''maxProperties'', ''maxLength''}"
  proof (cases "items_bound kvs")
    case None
    with dict_keys[OF dist run] show ?thesis by simp
  next
    case (Some b)
    obtain bk dflt c where b: "b = (bk, dflt, c)" by (cases b)
    from Some b have "bk \<in> {''maxItems'', ''maxProperties'', ''maxLength''}"
      by (auto dest: items_bound_range)
    with dict_keys[OF dist run] Some b show ?thesis by (cases "bk \<in> fst ` set kvs") auto
  qed
next
  fix k v assume "map_of kvs k = Some v \<and> is_container v"
  then show "\<exists>v'. limit_complexity v = Inr v' \<and> map_of kvs' k = Some v'"
    using dict_container[OF dist run] by blast
next
  fix k v
  assume k: "k \<notin> {''maxItems'', ''maxProperties'', ''maxLength''}"
    and v: "map_of kvs k = Some v \<and> \<not> is_container v"
  have "map_of kvs' k = map_of kvs k"
  proof (rule dict_other[OF dist run])
    fix bk dflt c assume "items_bound kvs = Some (bk, dflt, c)"
    with k show "k \<noteq> bk" by (auto dest: items_bound_range)
  next
    fix w assume "map_of kvs k = Some w"
    with v show "\<not> is_container w" by simp
  qed
  with v show "map_of kvs' k = Some v" by simp
next
  fix k
  assume k: "k \<notin> {''maxItems'', ''maxProperties'', ''maxLength''}"
    and n: "map_of kvs k = None"
  have "map_of kvs' k = map_of kvs k"
  proof (rule dict_other[OF dist run])
    fix bk dflt c assume "items_bound kvs = Some (bk, dflt, c)"
    with k show "k \<noteq> bk" by (auto dest: items_bound_range)
  next
    fix w assume "map_of kvs k = Some w"
    with n show "\<not> is_container w" by simp
  qed
  with n show "map_of kvs' k = None" by simp
qed

text \<open>
  Claim C4. A value that is neither a dict nor a list is returned unchanged. A list is
  rewritten element by element by the limiter itself. For a dict on which the limiter
  returns: the result is a dict with the keys of the input in their order, followed by
  nothing but bound keys; every value that is a dict or a list is replaced by its own
  limited value, whatever its key; and under every key other than \<open>maxItems\<close>,
  \<open>maxProperties\<close> and \<open>maxLength\<close> any other value is kept and no entry appears.
\<close>

theorem limit_complexity_frame:
  "(\<not> is_container s \<longrightarrow> limit_complexity s = Inr s) \<and>
   (\<forall>r. limit_complexity (JList xs) = Inr r \<longrightarrow>
      (\<exists>ys. r = JList ys \<and> length ys = length xs \<and>
         (\<forall>i < length xs. limit_complexity (xs ! i) = Inr (ys ! i)))) \<and>
   (\<forall>r. wf_json (JDict kvs) \<and> limit_complexity (JDict kvs) = Inr r \<longrightarrow>
      (\<exists>kvs'. r = JDict kvs' \<and>
         (\<exists>extra. map fst kvs' = map fst kvs @ extra \<and>
            set extra \<subseteq> {''maxItems'', ''maxProperties'', ''maxLength''}) \<and>
         (\<forall>k v. map_of kvs k = Some v \<and> is_container v \<longrightarrow>
            (\<exists>v'. limit_complexity v = Inr v' \<and> map_of kvs' k = Some v')) \<and>
         (\<forall>k. k \<notin> {''maxItems'', ''maxProperties'', ''maxLength''} \<longrightarrow>
            (\<forall>v. map_of kvs k = Some v \<and> \<not> is_container v \<longrightarrow> map_of kvs' k = Some v) \<and>
            (map_of kvs k = None \<longrightarrow> map_of kvs' k = None))))"
proof (intro conjI allI impI)
  assume "\<not> is_container s"
  then show "limit_complexity s = Inr s" by (rule limit_complexity_scalar)
next
  fix r assume "limit_complexity (JList xs) = Inr r"
  then obtain ys where ys: "limit_list xs = Inr ys" and r: "r = JList ys"
    by (auto split: sum.splits)
  from limit_list_nth[OF ys] r
  show "\<exists>ys. r = JList ys \<and> length ys = length xs \<and>
         (\<forall>i < length xs. limit_complexity (xs ! i) = Inr (ys ! i))" by blast
next
  fix r assume a: "wf_json (JDict kvs) \<and> limit_complexity (JDict kvs) = Inr r"
  then have dist: "distinct (map fst kvs)" by simp
  from a obtain kvs' where run: "limit_items kvs kvs = Inr kvs'" and r: "r = JDict kvs'"
    by (auto split: sum.splits)
  from dict_frame[OF dist run] r
  show "\<exists>kvs'. r = JDict kvs' \<and>
         (\<exists>extra. map fst kvs' = map fst kvs @ extra \<and>
            set extra \<subseteq> {''maxItems'', ''maxProperties'', ''maxLength''}) \<and>
         (\<forall>k v. map_of kvs k = Some v \<and> is_container v \<longrightarrow>
            (\<exists>v'. limit_complexity v = Inr v' \<and> map_of kvs' k = Some v')) \<and>
         (\<forall>k. k \<notin> {''maxItems'', ''maxProperties'', ''maxLength''} \<longrightarrow>
            (\<forall>v. map_of kvs k = Some v \<and> \<not> is_container v \<longrightarrow> map_of kvs' k = Some v) \<and>
            (map_of kvs k = None \<longrightarrow> map_of kvs' k = None))" by blast
qed

theorem limit_complexity_frame_witness:
  "\<not> is_container (JStr ''x'') \<and> limit_complexity (JStr ''x'') = Inr (JStr ''x'') \<and>
   limit_complexity (JList [JInt 1, JDict [(''type'', JStr ''object'')]]) =
     Inr (JList [JInt 1, JDict [(''type'', JStr ''object''), (''maxProperties'', JInt 5)]]) \<and>
   wf_json (JDict [(''type'', JStr ''object''), (''title'', JStr ''t''),
       (''properties'', JDict [(''a'', JDict [(''type'', JStr ''string'')])])]) \<and>
   limit_complexity (JDict [(''type'', JStr ''object''), (''title'', JStr ''t''),
       (''properties'', JDict [(''a'', JDict [(''type'', JStr ''string'')])])]) =
     Inr (JDict [(''type'', JStr ''object''), (''title'', JStr ''t''),
       (''properties'', JDict [(''a'', JDict [(''type'', JStr ''string''),
          (''maxLength'', JInt 20)])]),
       (''maxProperties'', JInt 5)]) \<and>
   (\<exists>kvs' v'. JDict [(''type'', JStr ''object''), (''title'', JStr ''t''),
       (''properties'', JDict [(''a'', JDict [(''type'', JStr ''string''),
          (''maxLength'', JInt 20)])]),
       (''maxProperties'', JInt 5)] = JDict kvs' \<and>
      map_of kvs' ''title'' = Some (JStr ''t'') \<and>
      limit_complexity (JDict [(''a'', JDict [(''type'', JStr ''string'')])]) = Inr v' \<and>
      map_of kvs' ''properties'' = Some v' \<and>
      map_of kvs' ''description'' = None)"
proof -
  let ?xs = "[JInt 1, JDict [(''type'', JStr ''object'')]]"
  let ?pr = "JDict [(''a'', JDict [(''type'', JStr ''string'')])]"
  let ?kvs = "[(''type'', JStr ''object''), (''title'', JStr ''t''), (''properties'', ?pr)]"
  let ?r = "JDict [(''type'', JStr ''object''), (''title'', JStr ''t''),
       (''properties'', JDict [(''a'', JDict [(''type'', JStr ''string''),
          (''maxLength'', JInt 20)])]),
       (''maxProperties'', JInt 5)]"
  note fr = limit_complexity_frame[of "JStr ''x''" ?xs ?kvs]
  have h0: "\<not> is_container (JStr ''x'')" by simp
  have h1: "limit_complexity (JList ?xs) =
     Inr (JList [JInt 1, JDict [(''type'', JStr ''object''), (''maxProperties'', JInt 5)]])"
    by (simp add: limit_items.simps py_min_def dict_get_def)
  have h2: "wf_json (JDict ?kvs)" by simp
  have h3: "limit_complexity (JDict ?kvs) = Inr ?r"
    by (simp add: limit_items.simps py_min_def dict_get_def)
  from fr h0 have c0: "limit_complexity (JStr ''x'') = Inr (JStr ''x'')"
    by (elim conjE impE)
  from fr have "wf_json (JDict ?kvs) \<and> limit_complexity (JDict ?kvs) = Inr ?r \<longrightarrow>
      (\<exists>kvs'. ?r = JDict kvs' \<and>
         (\<exists>extra. map fst kvs' = map fst ?kvs @ extra \<and>
            set extra \<subseteq> {''maxItems'', ''maxProperties'', ''maxLength''}) \<and>
         (\<forall>k v. map_of ?kvs k = Some v \<and> is_container v \<longrightarrow>
            (\<exists>v'. limit_complexity v = Inr v' \<and> map_of kvs' k = Some v')) \<and>
         (\<forall>k. k \<notin> {''maxItems'', ''maxProperties'', ''maxLength''} \<longrightarrow>
            (\<forall>v. map_of ?kvs k = Some v \<and> \<not> is_container v \<longrightarrow> map_of kvs' k = Some v) \<and>
            (map_of ?kvs k = None \<longrightarrow> map_of kvs' k = None)))"
    by (elim conjE allE)
  with h2 h3 obtain kvs' where r: "?r = JDict kvs'"
    and cont: "\<forall>k v. map_of ?kvs k = Some v \<and> is_container v \<longrightarrow>
            (\<exists>v'. limit_complexity v = Inr v' \<and> map_of kvs' k = Some v')"
    and other: "\<forall>k. k \<notin> {''maxItems'', ''maxProperties'', ''maxLength''} \<longrightarrow>
            (\<forall>v. map_of ?kvs k = Some v \<and> \<not> is_container v \<longrightarrow> map_of kvs' k = Some v) \<and>
            (map_of ?kvs k = None \<longrightarrow> map_of kvs' k = None)"
    by (elim impE exE conjE) (rule conjI)
  have pr: "map_of ?kvs ''properties'' = Some ?pr \<and> is_container ?pr" by simp
  from mp[OF spec[OF spec[OF cont]] pr] obtain v' where
    v': "limit_complexity ?pr = Inr v'" "map_of kvs' ''properties'' = Some v'"
    by (elim exE conjE)
  have t: "''title'' \<notin> {''maxItems'', ''maxProperties'', ''maxLength''}"
    and d: "''description'' \<notin> {''maxItems'', ''maxProperties'', ''maxLength''}" by simp_all
  have tv: "map_of ?kvs ''title'' = Some (JStr ''t'') \<and> \<not> is_container (JStr ''t'')" by simp
  from mp[OF spec[OF conjunct1[OF mp[OF spec[OF other] t]]] tv]
  have ti: "map_of kvs' ''title'' = Some (JStr ''t'')" .
  have dn: "map_of ?kvs ''description'' = None" by simp
  from mp[OF conjunct2[OF mp[OF spec[OF other] d]] dn]
  have de: "map_of kvs' ''description'' = None" .
  from r ti v' de have "\<exists>kvs' v'. ?r = JDict kvs' \<and>
      map_of kvs' ''title'' = Some (JStr ''t'') \<and>
      limit_complexity ?pr = Inr v' \<and>
      map_of kvs' ''properties'' = Some v' \<and>
      map_of kvs' ''description'' = None" by (intro exI conjI)
  with h0 c0 h1 h2 h3 show ?thesis by (intro conjI)
qed

lemma type_bound_None:
  assumes "v \<notin> {JStr ''array'', JStr ''object'', JStr ''string'', JStr ''number'', JStr ''integer''}"
  shows "type_bound k v = None"
proof (cases "type_bound k v")
  case (Some b)
  obtain bk dflt c where "b = (bk, dflt, c)" by (cases b)
  with Some have "type_bound k v = Some (bk, dflt, c)" by simp
  from type_bound_range[OF this] assms show ?thesis by auto
qed simp

text \<open>
  Claim C9. The limiter caps a dict node only when its \<open>type\<close> entry is one of the strings
  \<open>"array"\<close>, \<open>"object"\<close>, \<open>"string"\<close>, \<open>"number"\<close>, \<open>"integer"\<close>. At a node whose \<open>type\<close>
  is anything else, a list of type names in particular, or is missing, the result has
  exactly the keys of the input, a bound key that is absent stays absent, and a bound key
  holding a value that is not a dict or a list keeps that value.
\<close>

theorem limit_complexity_caps_only_named_types:
  assumes "wf_json s" and "limit_complexity s = Inr s'" and "at_path s p = Some (JDict kvs)"
    and "map_of kvs ''type'' \<notin> {Some (JStr ''array''), Some (JStr ''object''),
      Some (JStr ''string''), Some (JStr ''number''), Some (JStr ''integer'')}"
  shows "\<exists>kvs'. at_path s' p = Some (JDict kvs') \<and> map fst kvs' = map fst kvs \<and>
    (\<forall>bk \<in> {''maxItems'', ''maxProperties'', ''maxLength''}.
       (map_of kvs bk = None \<longrightarrow> map_of kvs' bk = None) \<and>
       (\<forall>v. map_of kvs bk = Some v \<and> \<not> is_container v \<longrightarrow> map_of kvs' bk = Some v))"
proof -
  from assms(1-3) obtain kvs' where at: "at_path s' p = Some (JDict kvs')"
    and run: "limit_items kvs kvs = Inr kvs'" and dist: "distinct (map fst kvs)"
    by (rule at_path_dict)
  have nb: "items_bound kvs = None"
  proof (cases "map_of kvs ''type''")
    case None
    with dist show ?thesis by (simp add: items_bound_map_of)
  next
    case (Some v)
    have "v \<notin> {JStr ''array'', JStr ''object'', JStr ''string'',
      JStr ''number'', JStr ''integer''}"
    proof
      assume "v \<in> {JStr ''array'', JStr ''object'', JStr ''string'',
        JStr ''number'', JStr ''integer''}"
      then have "Some v \<in> Some ` {JStr ''array'', JStr ''object'', JStr ''string'',
        JStr ''number'', JStr ''integer''}" by (rule imageI)
      with assms(4) show False unfolding Some by (simp only: image_insert image_empty)
    qed
    then have "type_bound ''type'' v = None" by (rule type_bound_None)
    with dist Some show ?thesis by (simp add: items_bound_map_of)
  qed
  from dict_keys[OF dist run] nb have keys: "map fst kvs' = map fst kvs" by simp
  have same: "map_of kvs' k = map_of kvs k"
    if "\<And>v. map_of kvs k = Some v \<Longrightarrow> \<not> is_container v" for k
  proof (rule dict_other[OF dist run])
    fix bk dflt c assume "items_bound kvs = Some (bk, dflt, c)"
    with nb show "k \<noteq> bk" by simp
  qed (rule that)
  have "(map_of kvs bk = None \<longrightarrow> map_of kvs' bk = None) \<and>
       (\<forall>v. map_of kvs bk = Some v \<and> \<not> is_container v \<longrightarrow> map_of kvs' bk = Some v)" for bk
  proof (intro conjI impI allI)
    assume "map_of kvs bk = None"
    with same[of bk] show "map_of kvs' bk = None" by simp
  next
    fix v assume "map_of kvs bk = Some v \<and> \<not> is_container v"
    with same[of bk] show "map_of kvs' bk = Some v" by simp
  qed
  then have "\<forall>bk \<in> {''maxItems'', ''maxProperties'', ''maxLength''}.
       (map_of kvs bk = None \<longrightarrow> map_of kvs' bk = None) \<and>
       (\<forall>v. map_of kvs bk = Some v \<and> \<not> is_container v \<longrightarrow> map_of kvs' bk = Some v)"
    by (intro ballI)
  with at keys show ?thesis by (intro exI conjI)
qed

theorem limit_complexity_caps_only_named_types_witness:
  "wf_json (JDict [(''type'', JList [JStr ''array'', JStr ''object'']), (''maxLength'', JInt 50)]) \<and>
   limit_complexity (JDict [(''type'', JList [JStr ''array'', JStr ''object'']),
       (''maxLength'', JInt 50)]) =
     Inr (JDict [(''type'', JList [JStr ''array'', JStr ''object'']), (''maxLength'', JInt 50)]) \<and>
   at_path (JDict [(''type'', JList [JStr ''array'', JStr ''object'']),
       (''maxLength'', JInt 50)]) [] =
     Some (JDict [(''type'', JList [JStr ''array'', JStr ''object'']), (''maxLength'', JInt 50)]) \<and>
   map_of [(''type'', JList [JStr ''array'', JStr ''object'']), (''maxLength'', JInt 50)] ''type''
     \<notin> {Some (JStr ''array''), Some (JStr ''object''),
      Some (JStr ''string''), Some (JStr ''number''), Some (JStr ''integer'')} \<and>
   (\<exists>kvs'. at_path (JDict [(''type'', JList [JStr ''array'', JStr ''object'']),
       (''maxLength'', JInt 50)]) [] = Some (JDict kvs') \<and>
      map fst kvs' = [''type'', ''maxLength''] \<and>
      map_of kvs' ''maxItems'' = None \<and> map_of kvs' ''maxProperties'' = None \<and>
      map_of kvs' ''maxLength'' = Some (JInt 50))"
proof -
  let ?kvs = "[(''type'', JList [JStr ''array'', JStr ''object'']), (''maxLength'', JInt 50)]"
  let ?B = "{''maxItems'', ''maxProperties'', ''maxLength''}"
  have h1: "wf_json (JDict ?kvs)" by simp
  have h2: "limit_complexity (JDict ?kvs) = Inr (JDict ?kvs)"
    by (simp add: limit_items.simps py_min_def dict_get_def)
  have h3: "at_path (JDict ?kvs) [] = Some (JDict ?kvs)" by simp
  have h4: "map_of ?kvs ''type'' \<notin> {Some (JStr ''array''), Some (JStr ''object''),
      Some (JStr ''string''), Some (JStr ''number''), Some (JStr ''integer'')}" by simp
  from limit_complexity_caps_only_named_types[OF h1 h2 h3 h4] obtain kvs' where
    at: "at_path (JDict ?kvs) [] = Some (JDict kvs')" and keys: "map fst kvs' = map fst ?kvs"
    and b: "\<forall>bk \<in> ?B.
       (map_of ?kvs bk = None \<longrightarrow> map_of kvs' bk = None) \<and>
       (\<forall>v. map_of ?kvs bk = Some v \<and> \<not> is_container v \<longrightarrow> map_of kvs' bk = Some v)"
    by (elim exE conjE)
  have m1: "''maxItems'' \<in> ?B" and m2: "''maxProperties'' \<in> ?B" and m3: "''maxLength'' \<in> ?B"
    by simp_all
  from bspec[OF b m1] have r1: "map_of kvs' ''maxItems'' = None" by simp
  from bspec[OF b m2] have r2: "map_of kvs' ''maxProperties'' = None" by simp
  from bspec[OF b m3] have r3: "map_of kvs' ''maxLength'' = Some (JInt 50)" by simp
  from keys have r0: "map fst kvs' = [''type'', ''maxLength'']" by simp
  from at r0 r1 r2 r3 have "\<exists>kvs'. at_path (JDict ?kvs) [] = Some (JDict kvs') \<and>
      map fst kvs' = [''type'', ''maxLength''] \<and>
      map_of kvs' ''maxItems'' = None \<and> map_of kvs' ''maxProperties'' = None \<and>
      map_of kvs' ''maxLength'' = Some (JInt 50)" by (intro exI conjI)
  with h1 h2 h3 h4 show ?thesis by (intro conjI)
qed

section \<open>Properties of the Schema Loader\<close>

lemma load_schema_cases:
  "load_schema env s w =
    (case fs_open env s of
       Opened text \<Rightarrow>
         (case json_loads env text of
            Inl msg \<Rightarrow> (Inl (JSONDecodeError msg),
                        py_print (''Attempting to load schema from: '' @ s) w)
          | Inr schema \<Rightarrow>
              (Inr schema,
               py_print (''Successfully loaded schema from file: '' @ s)
                 (py_print (''Attempting to load schema from: '' @ s) w)))
     | OpenFails msg \<Rightarrow> (Inl (OSError msg), py_print (''Attempting to load schema from: '' @ s) w)
     | DecodeFails msg \<Rightarrow>
         (Inl (UnicodeDecodeError msg), py_print (''Attempting to load schema from: '' @ s) w)
     | FileNotFound \<Rightarrow>
         (case json_loads env s of
            Inl msg \<Rightarrow> (Inl (ValueError (''Invalid schema: '' @ s)),
                        py_print (''Attempting to load schema from: '' @ s) w)
          | Inr schema \<Rightarrow>
              (Inr schema,
               py_print ''Successfully parsed inline JSON schema''
                 (py_print (''Attempting to load schema from: '' @ s) w))))"
  by (simp only: load_schema_def Let_def)

lemma load_schema_invalid_iff:
  "fst (load_schema env s w) = Inl (ValueError (''Invalid schema: '' @ s)) \<longleftrightarrow>
   fs_open env s = FileNotFound \<and> (\<exists>msg. json_loads env s = Inl msg)"
  unfolding load_schema_cases
  by (cases "fs_open env s"; cases "json_loads env s")
     (auto split: sum.splits)


text \<open>
  Claim C5, as stated, fails: when the file exists and its content is not JSON, and the
  string is not JSON either, both interpretations fail, and the loader raises the
  parser's \<^verbatim>\<open>JSONDecodeError\<close>, not the \<^verbatim>\<open>Invalid schema\<close> error. Here the file
  \<^verbatim>\<open>bad.json\<close> holds the text \<^verbatim>\<open>not json\<close>.
\<close>

theorem load_schema_malformed_file_counterexample:
  "fs_open demo_env ''bad.json'' = Opened ''not json'' \<and>
   json_loads demo_env ''not json'' = Inl ''Expecting value: line 1 column 1 (char 0)'' \<and>
   json_loads demo_env ''bad.json'' = Inl ''Expecting value: line 1 column 1 (char 0)'' \<and>
   fst (load_schema demo_env ''bad.json'' world0) =
     Inl (JSONDecodeError ''Expecting value: line 1 column 1 (char 0)'') \<and>
   fst (load_schema demo_env ''bad.json'' world0) \<noteq> Inl (ValueError ''Invalid schema: bad.json'')"
  by (simp add: load_schema_cases demo_env_def demo_open_def demo_loads_def)

text \<open>
  Claim C5, amended. The loader first opens the string as a path and parses the content
  of the file, returning the parsed value on success; when the file is not found it
  parses the string itself, returning the parsed value on success; and it fails with the
  \<^verbatim>\<open>Invalid schema\<close> error exactly when the file is not found and the string is not
  JSON.
\<close>

theorem load_schema_contract:
  "(\<forall>text schema. fs_open env s = Opened text \<and> json_loads env text = Inr schema \<longrightarrow>
      fst (load_schema env s w) = Inr schema) \<and>
   (\<forall>schema. fs_open env s = FileNotFound \<and> json_loads env s = Inr schema \<longrightarrow>
      fst (load_schema env s w) = Inr schema) \<and>
   (fst (load_schema env s w) = Inl (ValueError (''Invalid schema: '' @ s)) \<longleftrightarrow>
      fs_open env s = FileNotFound \<and> (\<exists>msg. json_loads env s = Inl msg))"
proof (intro conjI allI impI)
  fix content schema
  assume "fs_open env s = Opened content \<and> json_loads env content = Inr schema"
  then show "fst (load_schema env s w) = Inr schema" by (simp add: load_schema_cases)
next
  fix schema
  assume "fs_open env s = FileNotFound \<and> json_loads env s = Inr schema"
  then show "fst (load_schema env s w) = Inr schema" by (simp add: load_schema_cases)
next
  show "fst (load_schema env s w) = Inl (ValueError (''Invalid schema: '' @ s)) \<longleftrightarrow>
      fs_open env s = FileNotFound \<and> (\<exists>msg. json_loads env s = Inl msg)"
    by (rule load_schema_invalid_iff)
qed

theorem load_schema_contract_witness:
  \<open>fs_open demo_env ''schema.json'' = Opened ''{"type": "integer"}'' \<and>
   json_loads demo_env ''{"type": "integer"}'' = Inr (JDict [(''type'', JStr ''integer'')]) \<and>
   fst (load_schema demo_env ''schema.json'' world0) = Inr (JDict [(''type'', JStr ''integer'')]) \<and>
   fs_open demo_env ''{"type": "integer"}'' = FileNotFound \<and>
   fst (load_schema demo_env ''{"type": "integer"}'' world0) =
     Inr (JDict [(''type'', JStr ''integer'')]) \<and>
   fs_open demo_env ''not json'' = FileNotFound \<and>
   json_loads demo_env ''not json'' = Inl ''Expecting value: line 1 column 1 (char 0)'' \<and>
   fst (load_schema demo_env ''not json'' world0) = Inl (ValueError ''Invalid schema: not json'')\<close>
proof -
  have f1: \<open>fs_open demo_env ''schema.json'' = Opened ''{"type": "integer"}''\<close>
    and p1: \<open>json_loads demo_env ''{"type": "integer"}'' =
      Inr (JDict [(''type'', JStr ''integer'')])\<close>
    and f2: \<open>fs_open demo_env ''{"type": "integer"}'' = FileNotFound\<close>
    and f3: "fs_open demo_env ''not json'' = FileNotFound"
    and p3: "json_loads demo_env ''not json'' = Inl ''Expecting value: line 1 column 1 (char 0)''"
    by (simp_all add: demo_env_def demo_open_def demo_loads_def)
  note c = load_schema_contract[where env = demo_env and w = world0]
  from c[of "''schema.json''"] f1 p1
  have r1: "fst (load_schema demo_env ''schema.json'' world0) =
      Inr (JDict [(''type'', JStr ''integer'')])" by blast
  from c[of \<open>''{"type": "integer"}''\<close>] f2 p1
  have r2: \<open>fst (load_schema demo_env ''{"type": "integer"}'' world0) =
      Inr (JDict [(''type'', JStr ''integer'')])\<close> by blast
  from c[of "''not json''"] f3 p3
  have r3: "fst (load_schema demo_env ''not json'' world0) =
      Inl (ValueError (''Invalid schema: '' @ ''not json''))" by blast
  then have r3': "fst (load_schema demo_env ''not json'' world0) =
      Inl (ValueError ''Invalid schema: not json'')" by simp
  from f1 p1 r1 f2 r2 f3 p3 r3' show ?thesis by (intro conjI)
qed

text \<open>
  Claim C10. The loader parses the string itself only when the file is not found. When
  the file exists and its content is not JSON, the loader raises the parser's
  \<^verbatim>\<open>JSONDecodeError\<close> for the content, having printed nothing but its first line: the
  string is not parsed, whatever it is, and the \<^verbatim>\<open>Invalid schema\<close> error is not
  raised. When the file cannot be opened or read for another reason, that exception is
  raised.
\<close>

theorem load_schema_no_fallback_for_existing_file:
  "(\<forall>text msg. fs_open env s = Opened text \<and> json_loads env text = Inl msg \<longrightarrow>
      load_schema env s w =
        (Inl (JSONDecodeError msg), py_print (''Attempting to load schema from: '' @ s) w)) \<and>
   (\<forall>msg. fs_open env s = OpenFails msg \<longrightarrow>
      load_schema env s w =
        (Inl (OSError msg), py_print (''Attempting to load schema from: '' @ s) w)) \<and>
   (\<forall>msg. fs_open env s = DecodeFails msg \<longrightarrow>
      load_schema env s w =
        (Inl (UnicodeDecodeError msg), py_print (''Attempting to load schema from: '' @ s) w)) \<and>
   (fs_open env s \<noteq> FileNotFound \<longrightarrow>
      fst (load_schema env s w) \<noteq> Inl (ValueError (''Invalid schema: '' @ s)))"
proof (intro conjI allI impI)
  fix content msg
  assume "fs_open env s = Opened content \<and> json_loads env content = Inl msg"
  then show "load_schema env s w =
        (Inl (JSONDecodeError msg), py_print (''Attempting to load schema from: '' @ s) w)"
    by (simp add: load_schema_cases)
next
  fix msg assume "fs_open env s = OpenFails msg"
  then show "load_schema env s w =
        (Inl (OSError msg), py_print (''Attempting to load schema from: '' @ s) w)"
    by (simp add: load_schema_cases)
next
  fix msg assume "fs_open env s = DecodeFails msg"
  then show "load_schema env s w =
        (Inl (UnicodeDecodeError msg), py_print (''Attempting to load schema from: '' @ s) w)"
    by (simp add: load_schema_cases)
next
  assume "fs_open env s \<noteq> FileNotFound"
  with load_schema_invalid_iff[of env s w]
  show "fst (load_schema env s w) \<noteq> Inl (ValueError (''Invalid schema: '' @ s))"
    by blast
qed

theorem load_schema_no_fallback_for_existing_file_witness:
  \<open>fs_open demo_env ''{"type": "string"}'' = Opened ''not json'' \<and>
   json_loads demo_env ''not json'' = Inl ''Expecting value: line 1 column 1 (char 0)'' \<and>
   json_loads demo_env ''{"type": "string"}'' = Inr (JDict [(''type'', JStr ''string'')]) \<and>
   load_schema demo_env ''{"type": "string"}'' world0 =
     (Inl (JSONDecodeError ''Expecting value: line 1 column 1 (char 0)''),
      \<lparr>stdout = [''Attempting to load schema from: {"type": "string"}''], stderr = [],
       testcase_json = None\<rparr>)\<close>
proof -
  have f: \<open>fs_open demo_env ''{"type": "string"}'' = Opened ''not json''\<close>
    and p: "json_loads demo_env ''not json'' = Inl ''Expecting value: line 1 column 1 (char 0)''"
    and q: \<open>json_loads demo_env ''{"type": "string"}'' = Inr (JDict [(''type'', JStr ''string'')])\<close>
    by (simp_all add: demo_env_def demo_open_def demo_loads_def)
  from load_schema_no_fallback_for_existing_file[of demo_env \<open>''{"type": "string"}''\<close> world0] f p
  have \<open>load_schema demo_env ''{"type": "string"}'' world0 =
      (Inl (JSONDecodeError ''Expecting value: line 1 column 1 (char 0)''),
       py_print (''Attempting to load schema from: '' @ ''{"type": "string"}'') world0)\<close>
    by blast
  then have \<open>load_schema demo_env ''{"type": "string"}'' world0 =
     (Inl (JSONDecodeError ''Expecting value: line 1 column 1 (char 0)''),
      \<lparr>stdout = [''Attempting to load schema from: {"type": "string"}''], stderr = [],
       testcase_json = None\<rparr>)\<close>
    by (simp add: py_print_def world0_def)
  with f p q show ?thesis by (intro conjI)
qed

section \<open>Properties of the CLI Driver\<close>

lemma stderr_py_eprint: "stderr (py_eprint s w) = stderr w @ [s]"
  by (simp add: py_eprint_def)

lemma stderr_py_print: "stderr (py_print s w) = stderr w"
  by (simp add: py_print_def)

lemma stdout_py_print: "stdout (py_print s w) = stdout w @ [s]"
  by (simp add: py_print_def)

lemma cli_load_error:
  assumes "load_schema env (arg_schema a)
      (py_print (received_arguments a) (py_print ''Starting CLI execution'' w0)) = (Inl e, w2)"
  shows "cli env a w0 =
      (if is_ValueError e then (1, py_eprint (''Error: '' @ exn_str e) w2) else (1, w2))"
  using assms by (simp add: cli_def main_def Let_def)

lemma cli_seed_error:
  assumes "load_schema env (arg_schema a)
      (py_print (received_arguments a) (py_print ''Starting CLI execution'' w0)) = (Inr schema, w2)"
    and "set_seed env (arg_seed a) w2 = (Inl e, w3)"
  shows "cli env a w0 = (1, w3)"
  using assms by (simp add: cli_def main_def Let_def)

lemma cli_run_error:
  assumes "load_schema env (arg_schema a)
      (py_print (received_arguments a) (py_print ''Starting CLI execution'' w0)) = (Inr schema, w2)"
    and "set_seed env (arg_seed a) w2 = (Inr (), w3)"
    and "run_selected env a schema w3 = (Inl e, w4)"
  shows "cli env a w0 = (1, py_eprint (''Error: '' @ exn_str e) w4)"
  using assms by (simp add: cli_def main_def Let_def)

lemma cli_success:
  assumes "load_schema env (arg_schema a)
      (py_print (received_arguments a) (py_print ''Starting CLI execution'' w0)) = (Inr schema, w2)"
    and "set_seed env (arg_seed a) w2 = (Inr (), w3)"
    and "run_selected env a schema w3 = (Inr (), w4)"
  shows "cli env a w0 = (0, py_print ''CLI execution completed'' w4)"
  using assms by (simp add: cli_def main_def Let_def)

lemma cli_status_zero:
  assumes "fst (cli env a w0) = 0"
  shows "\<exists>schema w2 w3 w4.
      load_schema env (arg_schema a)
        (py_print (received_arguments a) (py_print ''Starting CLI execution'' w0)) =
        (Inr schema, w2) \<and>
      set_seed env (arg_seed a) w2 = (Inr (), w3) \<and>
      run_selected env a schema w3 = (Inr (), w4)"
proof -
  let ?w1 = "py_print (received_arguments a) (py_print ''Starting CLI execution'' w0)"
  obtain r w2 where l: "load_schema env (arg_schema a) ?w1 = (r, w2)" by (cases "load_schema env (arg_schema a) ?w1")
  show ?thesis
  proof (cases r)
    case (Inl e)
    with l assms cli_load_error[of env a w0 e w2] show ?thesis by (simp split: if_splits)
  next
    case (Inr schema)
    obtain r2 w3 where s: "set_seed env (arg_seed a) w2 = (r2, w3)" by (cases "set_seed env (arg_seed a) w2")
    show ?thesis
    proof (cases r2)
      case (Inl e)
      with l Inr s assms cli_seed_error[of env a w0 schema w2 e w3] show ?thesis by simp
    next
      case u: (Inr u)
      obtain r3 w4 where g: "run_selected env a schema w3 = (r3, w4)"
        by (cases "run_selected env a schema w3")
      show ?thesis
      proof (cases r3)
        case (Inl e)
        with l Inr s u g assms cli_run_error[of env a w0 schema w2 w3 e w4] show ?thesis by simp
      next
        case (Inr u')
        with l \<open>r = Inr schema\<close> s u g show ?thesis by auto
      qed
    qed
  qed
qed

text \<open>
  Claim C6. With \<open>w1\<close> the world in which \<^verbatim>\<open>main\<close> calls the loader: when the loader
  raises a \<^verbatim>\<open>ValueError\<close>, the process prints \<^verbatim>\<open>Error:\<close> and the exception to the
  diagnostic stream and exits with status 1; when the loader and the seeding return and
  the generator or the runner raises an exception, the process prints \<^verbatim>\<open>Error:\<close> and
  the exception to the diagnostic stream and exits with status 1; when the loader, the
  seeding and the generator or the runner return, the process prints its last line and
  exits with status 0. The exit status is 0 in that case only, and 1 otherwise.
\<close>

theorem cli_exit_status:
  "let w1 = py_print (received_arguments a) (py_print ''Starting CLI execution'' w0) in
   (\<forall>e w2. load_schema env (arg_schema a) w1 = (Inl e, w2) \<and> is_ValueError e \<longrightarrow>
      cli env a w0 = (1, py_eprint (''Error: '' @ exn_str e) w2)) \<and>
   (\<forall>schema w2 w3 e w4.
      load_schema env (arg_schema a) w1 = (Inr schema, w2) \<and>
      set_seed env (arg_seed a) w2 = (Inr (), w3) \<and>
      run_selected env a schema w3 = (Inl e, w4) \<longrightarrow>
      cli env a w0 = (1, py_eprint (''Error: '' @ exn_str e) w4)) \<and>
   (\<forall>schema w2 w3 w4.
      load_schema env (arg_schema a) w1 = (Inr schema, w2) \<and>
      set_seed env (arg_seed a) w2 = (Inr (), w3) \<and>
      run_selected env a schema w3 = (Inr (), w4) \<longrightarrow>
      cli env a w0 = (0, py_print ''CLI execution completed'' w4)) \<and>
   (fst (cli env a w0) = 0 \<longleftrightarrow>
      (\<exists>schema w2 w3 w4.
         load_schema env (arg_schema a) w1 = (Inr schema, w2) \<and>
         set_seed env (arg_seed a) w2 = (Inr (), w3) \<and>
         run_selected env a schema w3 = (Inr (), w4))) \<and>
   (fst (cli env a w0) \<noteq> 0 \<longleftrightarrow> fst (cli env a w0) = 1)"
proof -
  let ?w1 = "py_print (received_arguments a) (py_print ''Starting CLI execution'' w0)"
  have 1: "cli env a w0 = (1, py_eprint (''Error: '' @ exn_str e) w2)"
    if "load_schema env (arg_schema a) ?w1 = (Inl e, w2) \<and> is_ValueError e" for e w2
    using cli_load_error[of env a w0 e w2] that by simp
  have 2: "cli env a w0 = (1, py_eprint (''Error: '' @ exn_str e) w4)"
    if "load_schema env (arg_schema a) ?w1 = (Inr schema, w2) \<and>
      set_seed env (arg_seed a) w2 = (Inr (), w3) \<and>
      run_selected env a schema w3 = (Inl e, w4)" for schema w2 w3 e w4
    using cli_run_error[of env a w0 schema w2 w3 e w4] that by simp
  have 3: "cli env a w0 = (0, py_print ''CLI execution completed'' w4)"
    if "load_schema env (arg_schema a) ?w1 = (Inr schema, w2) \<and>
      set_seed env (arg_seed a) w2 = (Inr (), w3) \<and>
      run_selected env a schema w3 = (Inr (), w4)" for schema w2 w3 w4
    using cli_success[of env a w0 schema w2 w3 w4] that by simp
  have 4: "fst (cli env a w0) = 0 \<longleftrightarrow>
      (\<exists>schema w2 w3 w4.
         load_schema env (arg_schema a) ?w1 = (Inr schema, w2) \<and>
         set_seed env (arg_seed a) w2 = (Inr (), w3) \<and>
         run_selected env a schema w3 = (Inr (), w4))"
  proof
    assume "fst (cli env a w0) = 0"
    then show "\<exists>schema w2 w3 w4.
         load_schema env (arg_schema a) ?w1 = (Inr schema, w2) \<and>
         set_seed env (arg_seed a) w2 = (Inr (), w3) \<and>
         run_selected env a schema w3 = (Inr (), w4)" by (rule cli_status_zero)
  next
    assume "\<exists>schema w2 w3 w4.
         load_schema env (arg_schema a) ?w1 = (Inr schema, w2) \<and>
         set_seed env (arg_seed a) w2 = (Inr (), w3) \<and>
         run_selected env a schema w3 = (Inr (), w4)"
    then obtain schema w2 w3 w4 where "load_schema env (arg_schema a) ?w1 = (Inr schema, w2) \<and>
         set_seed env (arg_seed a) w2 = (Inr (), w3) \<and>
         run_selected env a schema w3 = (Inr (), w4)" by blast
    from 3[OF this] show "fst (cli env a w0) = 0" by simp
  qed
  have 5: "fst (cli env a w0) \<noteq> 0 \<longleftrightarrow> fst (cli env a w0) = 1"
    by (simp add: cli_def main_def Let_def split: prod.splits sum.splits outcome.splits if_splits)
  from 1 2 3 4 5 show ?thesis unfolding Let_def by blast
qed

theorem cli_exit_status_witness:
  "fst (load_schema demo_env ''not json''
     (py_print (received_arguments
        \<lparr>arg_schema = ''not json'', arg_num = 100, arg_seed = None, arg_script = None\<rparr>)
        (py_print ''Starting CLI execution'' world0))) =
     Inl (ValueError ''Invalid schema: not json'') \<and>
   is_ValueError (ValueError ''Invalid schema: not json'') \<and>
   fst (cli demo_env
     \<lparr>arg_schema = ''not json'', arg_num = 100, arg_seed = None, arg_script = None\<rparr> world0) = 1 \<and>
   stderr (snd (cli demo_env
     \<lparr>arg_schema = ''not json'', arg_num = 100, arg_seed = None, arg_script = None\<rparr> world0)) =
     [''Error: Invalid schema: not json''] \<and>
   fst (cli demo_env
     \<lparr>arg_schema = ''schema.json'', arg_num = 3, arg_seed = None,
      arg_script = Some ''./fail.sh''\<rparr> world0) = 1 \<and>
   stderr (snd (cli demo_env
     \<lparr>arg_schema = ''schema.json'', arg_num = 3, arg_seed = None,
      arg_script = Some ''./fail.sh''\<rparr> world0)) = [''Error: Test script failed''] \<and>
   fst (cli demo_env
     \<lparr>arg_schema = ''schema.json'', arg_num = 2, arg_seed = Some 7, arg_script = None\<rparr>
     world0) = 0 \<and>
   stderr (snd (cli demo_env
     \<lparr>arg_schema = ''schema.json'', arg_num = 2, arg_seed = Some 7, arg_script = None\<rparr>
     world0)) = []"
proof -
  let ?a1 = "\<lparr>arg_schema = ''not json'', arg_num = 100, arg_seed = None, arg_script = None\<rparr>"
  let ?a2 = "\<lparr>arg_schema = ''schema.json'', arg_num = 3, arg_seed = None,
      arg_script = Some ''./fail.sh''\<rparr>"
  let ?a3 = "\<lparr>arg_schema = ''schema.json'', arg_num = 2, arg_seed = Some 7, arg_script = None\<rparr>"
  let ?S = "JDict [(''type'', JStr ''integer'')]"
  let ?E1 = "ValueError ''Invalid schema: not json''"
  let ?E2 = "AssertionError ''Test script failed''"
  let ?u1 = "py_print (received_arguments ?a1) (py_print ''Starting CLI execution'' world0)"
  let ?u2 = "snd (load_schema demo_env (arg_schema ?a1) ?u1)"
  let ?v1 = "py_print (received_arguments ?a2) (py_print ''Starting CLI execution'' world0)"
  let ?v2 = "snd (load_schema demo_env (arg_schema ?a2) ?v1)"
  let ?v3 = "snd (set_seed demo_env (arg_seed ?a2) ?v2)"
  let ?v4 = "snd (run_selected demo_env ?a2 ?S ?v3)"
  let ?x1 = "py_print (received_arguments ?a3) (py_print ''Starting CLI execution'' world0)"
  let ?x2 = "snd (load_schema demo_env (arg_schema ?a3) ?x1)"
  let ?x3 = "snd (set_seed demo_env (arg_seed ?a3) ?x2)"
  let ?x4 = "snd (run_selected demo_env ?a3 ?S ?x3)"
  \<comment> \<open>the loader fails\<close>
  have "fst (load_schema demo_env (arg_schema ?a1) ?u1) = Inl ?E1" by code_simp
  then have l1: "load_schema demo_env (arg_schema ?a1) ?u1 = (Inl ?E1, ?u2)"
    by (simp only: prod_eq_iff fst_conv snd_conv simp_thms)
  have v1: "is_ValueError ?E1" by simp
  have s1: "stderr ?u2 = []" by code_simp
  from cli_exit_status[of ?a1 world0 demo_env]
  have "\<forall>e w2. load_schema demo_env (arg_schema ?a1) ?u1 = (Inl e, w2) \<and> is_ValueError e \<longrightarrow>
      cli demo_env ?a1 world0 = (1, py_eprint (''Error: '' @ exn_str e) w2)"
    unfolding Let_def by (rule conjunct1)
  from this[rule_format, OF conjI[OF l1 v1]]
  have c1: "cli demo_env ?a1 world0 = (1, py_eprint (''Error: '' @ exn_str ?E1) ?u2)" .
  \<comment> \<open>the runner fails\<close>
  have "fst (load_schema demo_env (arg_schema ?a2) ?v1) = Inr ?S" by code_simp
  then have l2: "load_schema demo_env (arg_schema ?a2) ?v1 = (Inr ?S, ?v2)"
    by (simp only: prod_eq_iff fst_conv snd_conv simp_thms)
  have "fst (set_seed demo_env (arg_seed ?a2) ?v2) = Inr ()" by code_simp
  then have d2: "set_seed demo_env (arg_seed ?a2) ?v2 = (Inr (), ?v3)"
    by (simp only: prod_eq_iff fst_conv snd_conv simp_thms)
  have "fst (run_selected demo_env ?a2 ?S ?v3) = Inl ?E2" by code_simp
  then have r2: "run_selected demo_env ?a2 ?S ?v3 = (Inl ?E2, ?v4)"
    by (simp only: prod_eq_iff fst_conv snd_conv simp_thms)
  have s2: "stderr ?v4 = []" by code_simp
  from cli_exit_status[of ?a2 world0 demo_env]
  have "\<forall>schema w2 w3 e w4.
      load_schema demo_env (arg_schema ?a2) ?v1 = (Inr schema, w2) \<and>
      set_seed demo_env (arg_seed ?a2) w2 = (Inr (), w3) \<and>
      run_selected demo_env ?a2 schema w3 = (Inl e, w4) \<longrightarrow>
      cli demo_env ?a2 world0 = (1, py_eprint (''Error: '' @ exn_str e) w4)"
    unfolding Let_def by (rule conjunct1[OF conjunct2])
  from this[rule_format, OF conjI[OF l2 conjI[OF d2 r2]]]
  have c2: "cli demo_env ?a2 world0 = (1, py_eprint (''Error: '' @ exn_str ?E2) ?v4)" .
  \<comment> \<open>everything returns\<close>
  have "fst (load_schema demo_env (arg_schema ?a3) ?x1) = Inr ?S" by code_simp
  then have l3: "load_schema demo_env (arg_schema ?a3) ?x1 = (Inr ?S, ?x2)"
    by (simp only: prod_eq_iff fst_conv snd_conv simp_thms)
  have "fst (set_seed demo_env (arg_seed ?a3) ?x2) = Inr ()" by code_simp
  then have d3: "set_seed demo_env (arg_seed ?a3) ?x2 = (Inr (), ?x3)"
    by (simp only: prod_eq_iff fst_conv snd_conv simp_thms)
  have "fst (run_selected demo_env ?a3 ?S ?x3) = Inr ()" by code_simp
  then have r3: "run_selected demo_env ?a3 ?S ?x3 = (Inr (), ?x4)"
    by (simp only: prod_eq_iff fst_conv snd_conv simp_thms)
  have s3: "stderr ?x4 = []" by code_simp
  from cli_exit_status[of ?a3 world0 demo_env]
  have "\<forall>schema w2 w3 w4.
      load_schema demo_env (arg_schema ?a3) ?x1 = (Inr schema, w2) \<and>
      set_seed demo_env (arg_seed ?a3) w2 = (Inr (), w3) \<and>
      run_selected demo_env ?a3 schema w3 = (Inr (), w4) \<longrightarrow>
      cli demo_env ?a3 world0 = (0, py_print ''CLI execution completed'' w4)"
    unfolding Let_def by (rule conjunct1[OF conjunct2[OF conjunct2]])
  from this[rule_format, OF conjI[OF l3 conjI[OF d3 r3]]]
  have c3: "cli demo_env ?a3 world0 = (0, py_print ''CLI execution completed'' ?x4)" .
  have f1: "fst (load_schema demo_env ''not json'' ?u1) = Inl ?E1" by code_simp
  have e1: "fst (cli demo_env ?a1 world0) = 1"
    "stderr (snd (cli demo_env ?a1 world0)) = [''Error: Invalid schema: not json'']"
    unfolding c1 by (simp_all only: fst_conv snd_conv stderr_py_eprint s1 exn_str.simps
        append.simps)
  have e2: "fst (cli demo_env ?a2 world0) = 1"
    "stderr (snd (cli demo_env ?a2 world0)) = [''Error: Test script failed'']"
    unfolding c2 by (simp_all only: fst_conv snd_conv stderr_py_eprint s2 exn_str.simps
        append.simps)
  have e3: "fst (cli demo_env ?a3 world0) = 0"
    "stderr (snd (cli demo_env ?a3 world0)) = []"
    unfolding c3 by (simp_all only: fst_conv snd_conv stderr_py_print s3)
  from f1 v1 e1 e2 e3 show ?thesis by (intro conjI)
qed

section \<open>Properties of the runs of the specification's engine\<close>

lemma spec_trials_add:
  "spec_trials draw body i (m + n) w =
     (case spec_trials draw body i m w of
        (Inl e, w') \<Rightarrow> (Inl e, w')
      | (Inr u, w') \<Rightarrow> spec_trials draw body (i + m) n w')"
  by (induction m arbitrary: i w) (auto split: sum.splits prod.splits)

text \<open>The trial that fails ends the run: no trial after it is made.\<close>

lemma spec_trials_abort:
  assumes "k < n" and "spec_trials draw body 0 k w = (Inr (), wk)"
    and "draw k = Inr inst" and "body inst wk = (Inl e, w')"
  shows "spec_trials draw body 0 n w = (Inl e, w')"
proof -
  from assms(1) obtain m where n: "n = k + Suc m" by (metis less_imp_Suc_add add_Suc_right)
  show ?thesis unfolding n spec_trials_add using assms(2-4) by simp
qed

lemma test_instance_fails:
  assumes "subprocess_run env script
      (py_print (''Executing test script: '' @ script @ '' testcase.json'')
        ((py_print (''Generated test instance: '' @ json_dumps env inst) w)
           \<lparr>testcase_json := Some (json_dumps env inst)\<rparr>)) = Inr (returncode, out, err)"
    and "returncode \<noteq> 0"
  shows "test_instance env script inst w =
     (Inl (AssertionError ''Test script failed''),
      py_print (''Test script failed with output:'' @ [CHR 0x0A] @ out @ [CHR 0x0A] @ err)
        (py_print (''Executing test script: '' @ script @ '' testcase.json'')
          ((py_print (''Generated test instance: '' @ json_dumps env inst) w)
             \<lparr>testcase_json := Some (json_dumps env inst)\<rparr>)))"
  unfolding test_instance_def Let_def using assms
  by (simp only: sum.case prod.case if_True simp_thms)

lemma run_test_script_result:
  assumes "limit_complexity schema = Inr limited_schema"
    and "from_schema env limited_schema = Inr strategy"
    and "run_given env strategy num (test_instance env script)
      (py_print ''Starting test execution''
        (py_print (''Generating '' @ str_int num @ '' test instances'')
          (py_print (''Running test script: '' @ script) w))) = (Inl e, w')"
  shows "run_test_script env schema num script w = (Inl e, w')"
  unfolding run_test_script_def Let_def using assms
  by (simp only: sum.case prod.case simp_thms)


text \<open>
  The Script Runner under the engine as the specification describes it (\<open>spec_given\<close>);
  the engine of the library itself is not part of the sources, and what it does after a
  failing trial is not decided by them. Let the loader and the seeding return, let a
  script be given, and let the first \<open>k\<close> instances pass. If the script returns a code other than 0 on the next instance, then the runner
  raises \<^verbatim>\<open>AssertionError("Test script failed")\<close> in the world of that very trial: the
  last things printed are the failing instance, the call of the script and the captured
  standard output and standard error of the script; \<^verbatim>\<open>testcase.json\<close> holds the failing
  instance; no later instance is drawn, whatever the instance count is. The exception
  reaches the handler of \<^verbatim>\<open>main\<close>, which prints it to the diagnostic stream, and the
  process exits with status 1.
\<close>

theorem script_failure_aborts_run:
  fixes env :: "'s env" and draw :: "'s \<Rightarrow> nat \<Rightarrow> exn + json"
    and a :: args and w0 w3 wk :: world and script out err :: string and inst :: json
  defines "w1 \<equiv> py_print (received_arguments a) (py_print ''Starting CLI execution'' w0)"
  assumes engine: "run_given env = spec_given draw"
    and load: "load_schema env (arg_schema a) w1 = (Inr schema, w2)"
    and seed: "set_seed env (arg_seed a) w2 = (Inr (), w3)"
    and script: "arg_script a = Some script" "script \<noteq> []"
    and lim: "limit_complexity schema = Inr limited_schema"
    and strat: "from_schema env limited_schema = Inr strategy"
  defines "wstart \<equiv> py_print ''Starting test execution''
      (py_print (''Generating '' @ str_int (arg_num a) @ '' test instances'')
        (py_print (''Running test script: '' @ script) w3))"
  assumes k: "k < nat (arg_num a)"
    and passed: "spec_trials (draw strategy) (test_instance env script) 0 k wstart = (Inr (), wk)"
    and inst: "draw strategy k = Inr inst"
  defines "wexec \<equiv> py_print (''Executing test script: '' @ script @ '' testcase.json'')
      ((py_print (''Generated test instance: '' @ json_dumps env inst) wk)
         \<lparr>testcase_json := Some (json_dumps env inst)\<rparr>)"
  assumes fails: "subprocess_run env script wexec = Inr (returncode, out, err)"
    and nonzero: "returncode \<noteq> 0"
  defines "wfail \<equiv>
      py_print (''Test script failed with output:'' @ [CHR 0x0A] @ out @ [CHR 0x0A] @ err) wexec"
  shows "run_test_script env schema (arg_num a) script w3 =
       (Inl (AssertionError ''Test script failed''), wfail) \<and>
     cli env a w0 = (1, py_eprint ''Error: Test script failed'' wfail) \<and>
     stdout (snd (cli env a w0)) = stdout wk @
       [''Generated test instance: '' @ json_dumps env inst,
        ''Executing test script: '' @ script @ '' testcase.json'',
        ''Test script failed with output:'' @ [CHR 0x0A] @ out @ [CHR 0x0A] @ err] \<and>
     stderr (snd (cli env a w0)) = stderr wk @ [''Error: Test script failed''] \<and>
     testcase_json (snd (cli env a w0)) = Some (json_dumps env inst)"
proof -
  have body: "test_instance env script inst wk = (Inl (AssertionError ''Test script failed''), wfail)"
    unfolding wfail_def wexec_def
    by (rule test_instance_fails[OF fails[unfolded wexec_def] nonzero])
  have "spec_trials (draw strategy) (test_instance env script) 0 (nat (arg_num a)) wstart =
      (Inl (AssertionError ''Test script failed''), wfail)"
    using k passed inst body by (rule spec_trials_abort)
  then have "run_given env strategy (arg_num a) (test_instance env script) wstart =
      (Inl (AssertionError ''Test script failed''), wfail)"
    by (simp add: engine spec_given_def)
  then have run: "run_test_script env schema (arg_num a) script w3 =
      (Inl (AssertionError ''Test script failed''), wfail)"
    unfolding wstart_def by (rule run_test_script_result[OF lim strat])
  with script have "run_selected env a schema w3 =
      (Inl (AssertionError ''Test script failed''), wfail)"
    by (simp add: run_selected_def)
  from cli_run_error[OF load[unfolded w1_def] seed this]
  have cli: "cli env a w0 = (1, py_eprint ''Error: Test script failed'' wfail)" by simp
  have so: "stdout (py_eprint ''Error: Test script failed'' wfail) = stdout wk @
       [''Generated test instance: '' @ json_dumps env inst,
        ''Executing test script: '' @ script @ '' testcase.json'',
        ''Test script failed with output:'' @ [CHR 0x0A] @ out @ [CHR 0x0A] @ err]"
    by (simp add: wfail_def wexec_def py_print_def py_eprint_def)
  have se: "stderr (py_eprint ''Error: Test script failed'' wfail) =
      stderr wk @ [''Error: Test script failed'']"
    by (simp add: wfail_def wexec_def py_print_def py_eprint_def)
  have tc: "testcase_json (py_eprint ''Error: Test script failed'' wfail) =
      Some (json_dumps env inst)"
    by (simp add: wfail_def wexec_def py_print_def py_eprint_def)
  from run cli so se tc show ?thesis by (simp only: snd_conv simp_thms)
qed

theorem script_failure_aborts_run_witness:
  "run_given demo_env = spec_given demo_draw \<and>
   fst (load_schema demo_env ''schema.json''
     (py_print (received_arguments
        \<lparr>arg_schema = ''schema.json'', arg_num = 3, arg_seed = None,
         arg_script = Some ''./picky.sh''\<rparr>)
       (py_print ''Starting CLI execution'' world0))) = Inr (JDict [(''type'', JStr ''integer'')]) \<and>
   limit_complexity (JDict [(''type'', JStr ''integer'')]) =
     Inr (JDict [(''type'', JStr ''integer''), (''maxLength'', JInt 20)]) \<and>
   demo_draw (JDict [(''type'', JStr ''integer''), (''maxLength'', JInt 20)]) 1 =
     Inr (JList [JInt 1]) \<and>
   (1::nat) < nat 3 \<and>
   fst (cli demo_env
     \<lparr>arg_schema = ''schema.json'', arg_num = 3, arg_seed = None,
      arg_script = Some ''./picky.sh''\<rparr> world0) = 1 \<and>
   stdout (snd (cli demo_env
     \<lparr>arg_schema = ''schema.json'', arg_num = 3, arg_seed = None,
      arg_script = Some ''./picky.sh''\<rparr> world0)) =
     [''Starting CLI execution'',
      ''Received arguments: schema=schema.json, num=3, seed=None, script=./picky.sh'',
      ''Attempting to load schema from: schema.json'',
      ''Successfully loaded schema from file: schema.json'',
      ''Running test script: ./picky.sh'',
      ''Generating 3 test instances'',
      ''Starting test execution'',
      ''Generated test instance: [0]'',
      ''Executing test script: ./picky.sh testcase.json'',
      ''Test script executed successfully'',
      ''Generated test instance: [1]'',
      ''Executing test script: ./picky.sh testcase.json'',
      ''Test script failed with output:'' @ [CHR 0x0A] @ ''rejected'' @ [CHR 0x0A] @
        ''bad instance''] \<and>
   stderr (snd (cli demo_env
     \<lparr>arg_schema = ''schema.json'', arg_num = 3, arg_seed = None,
      arg_script = Some ''./picky.sh''\<rparr> world0)) = [''Error: Test script failed''] \<and>
   testcase_json (snd (cli demo_env
     \<lparr>arg_schema = ''schema.json'', arg_num = 3, arg_seed = None,
      arg_script = Some ''./picky.sh''\<rparr> world0)) = Some ''[1]''"
proof -
  let ?a = "\<lparr>arg_schema = ''schema.json'', arg_num = 3, arg_seed = None,
      arg_script = Some ''./picky.sh''\<rparr>"
  let ?S = "JDict [(''type'', JStr ''integer'')]"
  let ?L = "JDict [(''type'', JStr ''integer''), (''maxLength'', JInt 20)]"
  let ?w1 = "py_print (received_arguments ?a) (py_print ''Starting CLI execution'' world0)"
  let ?w2 = "snd (load_schema demo_env (arg_schema ?a) ?w1)"
  let ?w3 = "snd (set_seed demo_env (arg_seed ?a) ?w2)"
  let ?ws = "py_print ''Starting test execution''
      (py_print (''Generating '' @ str_int (arg_num ?a) @ '' test instances'')
        (py_print (''Running test script: '' @ ''./picky.sh'') ?w3))"
  let ?wk = "snd (spec_trials (demo_draw ?L) (test_instance demo_env ''./picky.sh'') 0 1 ?ws)"
  let ?we = "py_print (''Executing test script: '' @ ''./picky.sh'' @ '' testcase.json'')
      ((py_print (''Generated test instance: '' @ json_dumps demo_env (JList [JInt 1])) ?wk)
         \<lparr>testcase_json := Some (json_dumps demo_env (JList [JInt 1]))\<rparr>)"
  have engine: "run_given demo_env = spec_given demo_draw" by (simp add: demo_env_def)
  have f1: "fst (load_schema demo_env (arg_schema ?a) ?w1) = Inr ?S" by code_simp
  then have load: "load_schema demo_env (arg_schema ?a) ?w1 = (Inr ?S, ?w2)"
    by (simp only: prod_eq_iff fst_conv snd_conv simp_thms)
  have "fst (set_seed demo_env (arg_seed ?a) ?w2) = Inr ()" by code_simp
  then have seed: "set_seed demo_env (arg_seed ?a) ?w2 = (Inr (), ?w3)"
    by (simp only: prod_eq_iff fst_conv snd_conv simp_thms)
  have script: "arg_script ?a = Some ''./picky.sh''" "''./picky.sh'' \<noteq> []" by simp_all
  have lim: "limit_complexity ?S = Inr ?L" by code_simp
  have strat: "from_schema demo_env ?L = Inr ?L" by (simp add: demo_env_def)
  have k: "1 < nat (arg_num ?a)" by simp
  have "fst (spec_trials (demo_draw ?L) (test_instance demo_env ''./picky.sh'') 0 1 ?ws) = Inr ()"
    by code_simp
  then have passed:
    "spec_trials (demo_draw ?L) (test_instance demo_env ''./picky.sh'') 0 1 ?ws = (Inr (), ?wk)"
    by (simp only: prod_eq_iff fst_conv snd_conv simp_thms)
  have inst: "demo_draw ?L 1 = Inr (JList [JInt 1])" by (simp add: demo_draw_def)
  have fails: "subprocess_run demo_env ''./picky.sh'' ?we = Inr (1, ''rejected'', ''bad instance'')"
    by code_simp
  have nonzero: "(1::int) \<noteq> 0" by simp
  note T = script_failure_aborts_run[OF engine load seed script lim strat k passed inst fails nonzero]
  have wk: "stdout ?wk =
     [''Starting CLI execution'',
      ''Received arguments: schema=schema.json, num=3, seed=None, script=./picky.sh'',
      ''Attempting to load schema from: schema.json'',
      ''Successfully loaded schema from file: schema.json'',
      ''Running test script: ./picky.sh'',
      ''Generating 3 test instances'',
      ''Starting test execution'',
      ''Generated test instance: [0]'',
      ''Executing test script: ./picky.sh testcase.json'',
      ''Test script executed successfully'']" by code_simp
  have wke: "stderr ?wk = []" by code_simp
  have dumps: "json_dumps demo_env (JList [JInt 1]) = ''[1]''" by code_simp
  from T have c: "cli demo_env ?a world0 = (1, py_eprint ''Error: Test script failed''
      (py_print (''Test script failed with output:'' @ [CHR 0x0A] @ ''rejected'' @ [CHR 0x0A] @
        ''bad instance'') ?we))"
    by (rule conjunct1[OF conjunct2])
  from T have so: "stdout (snd (cli demo_env ?a world0)) = stdout ?wk @
       [''Generated test instance: '' @ json_dumps demo_env (JList [JInt 1]),
        ''Executing test script: '' @ ''./picky.sh'' @ '' testcase.json'',
        ''Test script failed with output:'' @ [CHR 0x0A] @ ''rejected'' @ [CHR 0x0A] @
          ''bad instance'']"
    by (rule conjunct1[OF conjunct2[OF conjunct2]])
  from T have se: "stderr (snd (cli demo_env ?a world0)) = stderr ?wk @ [''Error: Test script failed'']"
    by (rule conjunct1[OF conjunct2[OF conjunct2[OF conjunct2]]])
  from T have tc: "testcase_json (snd (cli demo_env ?a world0)) =
      Some (json_dumps demo_env (JList [JInt 1]))"
    by (rule conjunct2[OF conjunct2[OF conjunct2[OF conjunct2]]])
  from c have r1: "fst (cli demo_env ?a world0) = 1" by (simp only: fst_conv)
  from so have r2: "stdout (snd (cli demo_env ?a world0)) =
     [''Starting CLI execution'',
      ''Received arguments: schema=schema.json, num=3, seed=None, script=./picky.sh'',
      ''Attempting to load schema from: schema.json'',
      ''Successfully loaded schema from file: schema.json'',
      ''Running test script: ./picky.sh'',
      ''Generating 3 test instances'',
      ''Starting test execution'',
      ''Generated test instance: [0]'',
      ''Executing test script: ./picky.sh testcase.json'',
      ''Test script executed successfully'',
      ''Generated test instance: [1]'',
      ''Executing test script: ./picky.sh testcase.json'',
      ''Test script failed with output:'' @ [CHR 0x0A] @ ''rejected'' @ [CHR 0x0A] @
        ''bad instance'']"
    unfolding wk dumps by simp
  from se have r3: "stderr (snd (cli demo_env ?a world0)) = [''Error: Test script failed'']"
    unfolding wke by simp
  from tc have r4: "testcase_json (snd (cli demo_env ?a world0)) = Some ''[1]''"
    unfolding dumps .
  have f1': "fst (load_schema demo_env ''schema.json'' ?w1) = Inr ?S" using f1 by simp
  have k': "(1::nat) < nat 3" by simp
  from engine f1' lim inst k' r1 r2 r3 r4 show ?thesis by (intro conjI)
qed

section \<open>When the limiter returns, and the bounds it sets\<close>

lemma py_min_exact:
  "py_min x c = Inr m \<Longrightarrow>
   \<exists>f. py_num x = Some f \<and> m = (if fl_lt (Finite (of_int c)) f then JInt c else x)"
  by (cases x) (auto simp: py_min_def split: if_splits)

lemma py_min_number: "(\<exists>m. py_min x c = Inr m) \<longleftrightarrow> is_number x"
  by (cases x) (auto simp: py_min_def)

lemma fl_lt_Finite:
  "fl_lt (Finite a) f \<Longrightarrow> f \<noteq> NaN \<and> fl_le (Finite a) f"
  by (cases f) auto

lemma fl_not_lt_Finite:
  "\<not> fl_lt (Finite a) f \<Longrightarrow> f \<noteq> NaN \<Longrightarrow> fl_le f (Finite a) \<and> fl_le f f"
  by (cases f) auto

lemma py_min_le:
  assumes "py_min x c = Inr m" and "py_num x = Some f" and "f \<noteq> NaN"
  shows "\<exists>y. py_num m = Some y \<and> fl_le y f \<and> fl_le y (Finite (of_int c))"
proof -
  from py_min_exact[OF assms(1)] assms(2)
  have m: "m = (if fl_lt (Finite (of_int c)) f then JInt c else x)" by auto
  show ?thesis
  proof (cases "fl_lt (Finite (of_int c)) f")
    case True
    with m fl_lt_Finite[OF True] show ?thesis by simp
  next
    case False
    with m assms(2) fl_not_lt_Finite[OF False assms(3)] show ?thesis by simp
  qed
qed

lemma py_min_finite:
  assumes "py_min x c = Inr m" and "py_num x = Some (Finite r)"
  shows "py_num m = Some (Finite (min r (of_int c)))"
proof -
  from py_min_exact[OF assms(1)] assms(2)
  have "m = (if of_int c < r then JInt c else x)" by auto
  with assms(2) show ?thesis by (auto simp: min_def)
qed

subsection \<open>The loop returns when its bound is a number\<close>

lemma limit_items_returns:
  assumes "distinct (map fst xs)" and "snap_inv xs d"
    and "\<And>k v. (k, v) \<in> set xs \<Longrightarrow> is_container v \<Longrightarrow> \<exists>v'. limit_complexity v = Inr v'"
    and "\<And>bk dflt c. items_bound xs = Some (bk, dflt, c) \<Longrightarrow>
      \<exists>m. py_min (dict_get d bk (JInt dflt)) c = Inr m"
  shows "\<exists>d'. limit_items xs d = Inr d'"
  using assms
proof (induction xs arbitrary: d)
  case Nil
  show ?case by simp
next
  case (Cons kv rest)
  obtain k v where kv: "kv = (k, v)" by (cases kv)
  from Cons.prems(1) kv have dist: "distinct (map fst rest)" and knot: "k \<notin> fst ` set rest"
    by auto
  from Cons.prems(2) have inv: "snap_inv rest d" by (rule snap_inv_tail)
  have conts: "\<And>k' v'. (k', v') \<in> set rest \<Longrightarrow> is_container v' \<Longrightarrow>
      \<exists>r. limit_complexity v' = Inr r"
    using Cons.prems(3) by auto
  show ?case
  proof (cases "type_bound k v")
    case (Some b)
    obtain bk dflt c where b: "b = (bk, dflt, c)" by (cases b)
    from Some b kv have "items_bound (kv # rest) = Some (bk, dflt, c)" by simp
    from Cons.prems(4)[OF this] obtain m where m: "py_min (dict_get d bk (JInt dflt)) c = Inr m"
      by blast
    from Some have "k = ''type''" by (auto dest: type_bound_key)
    with knot have none: "items_bound rest = None" by (simp add: items_bound_None)
    have "\<exists>d'. limit_items rest (AList.update bk m d) = Inr d'"
    proof (rule Cons.IH[OF dist snap_inv_update_bound[OF inv m] conts])
      fix b1 d1 c1 assume "items_bound rest = Some (b1, d1, c1)"
      with none show "\<exists>m'. py_min (dict_get (AList.update bk m d) b1 (JInt d1)) c1 = Inr m'"
        by simp
    qed
    with Some b m kv show ?thesis by (simp add: limit_items_step)
  next
    case None
    have ib: "items_bound (kv # rest) = items_bound rest" using None kv by simp
    show ?thesis
    proof (cases "is_container v")
      case True
      from Cons.prems(3)[of k v] kv True obtain v' where v': "limit_complexity v = Inr v'"
        by auto
      from Cons.prems(2) kv True have lk: "map_of d k = Some v" by (simp add: snap_inv_def)
      have "\<exists>d'. limit_items rest (AList.update k v' d) = Inr d'"
      proof (rule Cons.IH[OF dist snap_inv_update_other[OF inv knot] conts])
        fix bk dflt c assume b: "items_bound rest = Some (bk, dflt, c)"
        with ib Cons.prems(4) obtain m where m: "py_min (dict_get d bk (JInt dflt)) c = Inr m"
          by metis
        have "k \<noteq> bk"
        proof
          assume "k = bk"
          with lk have "dict_get d bk (JInt dflt) = v" by (simp add: dict_get_def)
          with m True show False by (auto dest: py_min_scalar)
        qed
        with m show "\<exists>m'. py_min (dict_get (AList.update k v' d) bk (JInt dflt)) c = Inr m'"
          by (simp add: dict_get_update)
      qed
      with None True v' kv show ?thesis by (simp add: limit_items_step)
    next
      case False
      have "\<exists>d'. limit_items rest d = Inr d'"
      proof (rule Cons.IH[OF dist inv conts])
        fix bk dflt c assume "items_bound rest = Some (bk, dflt, c)"
        with ib Cons.prems(4)
        show "\<exists>m. py_min (dict_get d bk (JInt dflt)) c = Inr m" by metis
      qed
      with None False kv show ?thesis by (simp add: limit_items_step)
    qed
  qed
qed

lemma node_numeric_items_bound:
  assumes "distinct (map fst kvs)"
  shows "node_numeric kvs =
     (case items_bound kvs of None \<Rightarrow> True | Some (bk, dflt, c) \<Rightarrow> bound_ok kvs bk)"
proof (cases "map_of kvs ''type''")
  case None
  with assms show ?thesis by (simp add: node_numeric_def items_bound_map_of)
next
  case (Some v)
  have "node_numeric kvs =
     (case type_bound ''type'' v of None \<Rightarrow> True | Some (bk, dflt, c) \<Rightarrow> bound_ok kvs bk)"
    unfolding node_numeric_def type_bound_def Some by simp
  with assms Some show ?thesis by (simp add: items_bound_map_of)
qed

lemma bound_ok_py_min:
  "bound_ok kvs bk \<longleftrightarrow> (\<exists>m. py_min (dict_get kvs bk (JInt dflt)) c = Inr m)"
  unfolding py_min_number by (simp add: bound_ok_def dict_get_def split: option.splits)

lemma limit_complexity_returns:
  "wf_json s \<Longrightarrow> bounds_numeric s \<Longrightarrow> \<exists>s'. limit_complexity s = Inr s'"
proof (induction s rule: json.induct)
  case (JList xs)
  have "\<exists>ys. limit_list xs = Inr ys" using JList
  proof (induction xs)
    case Nil
    show ?case by simp
  next
    case (Cons x xs)
    from Cons.prems(2,3) have "wf_json x" "bounds_numeric x" by simp_all
    with Cons.prems(1)[of x] obtain y where y: "limit_complexity x = Inr y" by auto
    have "\<exists>ys. limit_list xs = Inr ys"
      by (rule Cons.IH) (use Cons.prems in auto)
    with y show ?case by auto
  qed
  then show ?case by auto
next
  case (JDict kvs)
  from JDict.prems have dist: "distinct (map fst kvs)" and nn: "node_numeric kvs" by simp_all
  have "\<exists>d'. limit_items kvs kvs = Inr d'"
  proof (rule limit_items_returns[OF dist snap_inv_self[OF dist]])
    fix k v assume kv: "(k, v) \<in> set kvs" and "is_container v"
    from JDict.prems kv have "wf_json v" "bounds_numeric v" by (auto simp: list_all_iff)
    moreover have "v \<in> Basic_BNFs.snds (k, v)" by simp
    ultimately show "\<exists>v'. limit_complexity v = Inr v'"
      using kv JDict.IH[of "(k, v)" v] by blast
  next
    fix bk dflt c assume ib: "items_bound kvs = Some (bk, dflt, c)"
    with nn dist have "bound_ok kvs bk" by (simp add: node_numeric_items_bound)
    then show "\<exists>m. py_min (dict_get kvs bk (JInt dflt)) c = Inr m"
      using bound_ok_py_min[of kvs bk dflt c] by blast
  qed
  then show ?case by auto
qed simp_all

lemma limit_complexity_returns_only:
  "wf_json s \<Longrightarrow> limit_complexity s = Inr s' \<Longrightarrow> bounds_numeric s"
proof (induction s arbitrary: s' rule: json.induct)
  case (JList xs)
  from JList.prems(2) obtain ys where ys: "limit_list xs = Inr ys" by (auto split: sum.splits)
  have "bounds_numeric x" if "x \<in> set xs" for x
  proof -
    from that obtain i where i: "i < length xs" "x = xs ! i" by (auto simp: in_set_conv_nth)
    with limit_list_nth[OF ys] have "limit_complexity x = Inr (ys ! i)" by simp
    moreover from JList.prems(1) that have "wf_json x" by (simp add: list_all_iff)
    ultimately show ?thesis using JList.IH[OF that] by blast
  qed
  then show ?case by (simp add: list_all_iff)
next
  case (JDict kvs)
  from JDict.prems(1) have dist: "distinct (map fst kvs)" by simp
  from JDict.prems(2) obtain d' where run: "limit_items kvs kvs = Inr d'"
    by (auto split: sum.splits)
  have nn: "node_numeric kvs"
  proof (cases "items_bound kvs")
    case None
    with dist show ?thesis by (simp add: node_numeric_items_bound)
  next
    case (Some b)
    obtain bk dflt c where b: "b = (bk, dflt, c)" by (cases b)
    from dict_bound[OF dist run Some[unfolded b]]
    have "\<exists>m. py_min (dict_get kvs bk (JInt dflt)) c = Inr m" by blast
    then have "bound_ok kvs bk" using bound_ok_py_min[of kvs bk dflt c] by blast
    with dist Some b show ?thesis by (simp add: node_numeric_items_bound)
  qed
  have "bounds_numeric v" if kv: "(k, v) \<in> set kvs" for k v
  proof (cases "is_container v")
    case True
    from dist kv have "map_of kvs k = Some v" by simp
    from dict_container[OF dist run this True] obtain v' where v': "limit_complexity v = Inr v'"
      by blast
    from JDict.prems(1) kv have "wf_json v" by (auto simp: list_all_iff)
    moreover have "v \<in> Basic_BNFs.snds (k, v)" by simp
    ultimately show ?thesis using kv v' JDict.IH[of "(k, v)" v v'] by blast
  next
    case False
    then show ?thesis by (cases v) simp_all
  qed
  with nn show ?case by (auto simp: list_all_iff)
qed simp_all

lemma fl_le_refl: "f \<noteq> NaN \<Longrightarrow> fl_le f f"
  by (cases f) auto

text \<open>The bound a node with the given \<open>type\<close> entry gets.\<close>

lemma node_bound:
  assumes dist: "distinct (map fst kvs)" and run: "limit_items kvs kvs = Inr kvs'"
    and ty: "map_of kvs ''type'' = Some v" and tb: "type_bound ''type'' v = Some (bk, dflt, c)"
  shows "\<exists>x m. py_num (dict_get kvs bk (JInt dflt)) = Some x \<and> map_of kvs' bk = Some m \<and>
      m = (if fl_lt (Finite (of_int c)) x then JInt c else dict_get kvs bk (JInt dflt)) \<and>
      (\<forall>r. x = Finite r \<longrightarrow> py_num m = Some (Finite (min r (of_int c)))) \<and>
      (x \<noteq> NaN \<longrightarrow> (\<exists>y. py_num m = Some y \<and> fl_le y x \<and> fl_le y (Finite (of_int c))))"
proof -
  from dist ty tb have "items_bound kvs = Some (bk, dflt, c)" by (simp add: items_bound_map_of)
  from dict_bound[OF dist run this] obtain m where
    m: "py_min (dict_get kvs bk (JInt dflt)) c = Inr m" "map_of kvs' bk = Some m" by blast
  from py_min_exact[OF m(1)] obtain x where
    x: "py_num (dict_get kvs bk (JInt dflt)) = Some x"
      "m = (if fl_lt (Finite (of_int c)) x then JInt c else dict_get kvs bk (JInt dflt))"
    by blast
  have fin: "\<forall>r. x = Finite r \<longrightarrow> py_num m = Some (Finite (min r (of_int c)))"
    using py_min_finite[OF m(1)] x(1) by simp
  have le: "x \<noteq> NaN \<longrightarrow> (\<exists>y. py_num m = Some y \<and> fl_le y x \<and> fl_le y (Finite (of_int c)))"
    using py_min_le[OF m(1) x(1)] by blast
  from x m(2) fin le show ?thesis by blast
qed

text \<open>
  Claim C1. The limiter returns exactly on the trees where, at every dict, the bound key
  that the \<open>type\<close> entry selects is absent or holds a number (on any other tree \<^verbatim>\<open>min\<close>
  raises \<^verbatim>\<open>TypeError\<close>). Whenever it returns, at every dict node of the tree: if the
  node has \<open>"type": "array"\<close>, the node at the same place of the result has \<open>maxItems\<close>
  equal to \<^verbatim>\<open>min(existing maxItems, or 10 if absent, 5)\<close>; if it has \<open>"type": "object"\<close>,
  \<open>maxProperties\<close> is \<^verbatim>\<open>min(existing maxProperties, or 10 if absent, 5)\<close>; if its \<open>type\<close>
  is \<open>"string"\<close>, \<open>"number"\<close> or \<open>"integer"\<close>, \<open>maxLength\<close> is
  \<^verbatim>\<open>min(existing maxLength, or 100 if absent, 20)\<close>. Here \<^verbatim>\<open>min(x, c)\<close> is the ceiling
  \<open>c\<close> when \<open>c < x\<close> and \<open>x\<close> itself otherwise; for a finite \<open>x\<close> it has the value of the
  smaller of the two numbers; for NaN, which no number is less than, it is the NaN.
\<close>

theorem limit_complexity_sets_bounds:
  assumes "wf_json s"
  shows "((\<exists>s'. limit_complexity s = Inr s') \<longleftrightarrow> bounds_numeric s) \<and>
    (\<forall>s' p kvs. limit_complexity s = Inr s' \<and> at_path s p = Some (JDict kvs) \<longrightarrow>
       (\<exists>kvs'. at_path s' p = Some (JDict kvs') \<and>
          (map_of kvs ''type'' = Some (JStr ''array'') \<longrightarrow>
             (\<exists>x m. py_num (dict_get kvs ''maxItems'' (JInt 10)) = Some x \<and>
                map_of kvs' ''maxItems'' = Some m \<and>
                m = (if fl_lt (Finite 5) x then JInt 5 else dict_get kvs ''maxItems'' (JInt 10)) \<and>
                (\<forall>r. x = Finite r \<longrightarrow> py_num m = Some (Finite (min r 5))))) \<and>
          (map_of kvs ''type'' = Some (JStr ''object'') \<longrightarrow>
             (\<exists>x m. py_num (dict_get kvs ''maxProperties'' (JInt 10)) = Some x \<and>
                map_of kvs' ''maxProperties'' = Some m \<and>
                m = (if fl_lt (Finite 5) x then JInt 5
                     else dict_get kvs ''maxProperties'' (JInt 10)) \<and>
                (\<forall>r. x = Finite r \<longrightarrow> py_num m = Some (Finite (min r 5))))) \<and>
          (\<forall>t \<in> {''string'', ''number'', ''integer''}. map_of kvs ''type'' = Some (JStr t) \<longrightarrow>
             (\<exists>x m. py_num (dict_get kvs ''maxLength'' (JInt 100)) = Some x \<and>
                map_of kvs' ''maxLength'' = Some m \<and>
                m = (if fl_lt (Finite 20) x then JInt 20
                     else dict_get kvs ''maxLength'' (JInt 100)) \<and>
                (\<forall>r. x = Finite r \<longrightarrow> py_num m = Some (Finite (min r 20)))))))"
proof (intro conjI allI impI)
  show "(\<exists>s'. limit_complexity s = Inr s') \<longleftrightarrow> bounds_numeric s"
    using limit_complexity_returns[OF assms] limit_complexity_returns_only[OF assms] by blast
next
  fix s' p kvs
  assume a: "limit_complexity s = Inr s' \<and> at_path s p = Some (JDict kvs)"
  then have r: "limit_complexity s = Inr s'" and n: "at_path s p = Some (JDict kvs)" by simp_all
  from assms r n obtain kvs' where at: "at_path s' p = Some (JDict kvs')"
    and run: "limit_items kvs kvs = Inr kvs'" and dist: "distinct (map fst kvs)"
    by (rule at_path_dict)
  have a: "\<exists>x m. py_num (dict_get kvs ''maxItems'' (JInt 10)) = Some x \<and>
          map_of kvs' ''maxItems'' = Some m \<and>
          m = (if fl_lt (Finite 5) x then JInt 5 else dict_get kvs ''maxItems'' (JInt 10)) \<and>
          (\<forall>r. x = Finite r \<longrightarrow> py_num m = Some (Finite (min r 5)))"
    if "map_of kvs ''type'' = Some (JStr ''array'')"
    using node_bound[OF dist run that type_bound_array] by auto
  have b: "\<exists>x m. py_num (dict_get kvs ''maxProperties'' (JInt 10)) = Some x \<and>
          map_of kvs' ''maxProperties'' = Some m \<and>
          m = (if fl_lt (Finite 5) x then JInt 5 else dict_get kvs ''maxProperties'' (JInt 10)) \<and>
          (\<forall>r. x = Finite r \<longrightarrow> py_num m = Some (Finite (min r 5)))"
    if "map_of kvs ''type'' = Some (JStr ''object'')"
    using node_bound[OF dist run that type_bound_object] by auto
  have c: "\<exists>x m. py_num (dict_get kvs ''maxLength'' (JInt 100)) = Some x \<and>
          map_of kvs' ''maxLength'' = Some m \<and>
          m = (if fl_lt (Finite 20) x then JInt 20 else dict_get kvs ''maxLength'' (JInt 100)) \<and>
          (\<forall>r. x = Finite r \<longrightarrow> py_num m = Some (Finite (min r 20)))"
    if "t \<in> {''string'', ''number'', ''integer''}" "map_of kvs ''type'' = Some (JStr t)" for t
    using node_bound[OF dist run that(2) type_bound_scalar[OF that(1)]] by auto
  from at a b c
  show "\<exists>kvs'. at_path s' p = Some (JDict kvs') \<and>
          (map_of kvs ''type'' = Some (JStr ''array'') \<longrightarrow>
             (\<exists>x m. py_num (dict_get kvs ''maxItems'' (JInt 10)) = Some x \<and>
                map_of kvs' ''maxItems'' = Some m \<and>
                m = (if fl_lt (Finite 5) x then JInt 5 else dict_get kvs ''maxItems'' (JInt 10)) \<and>
                (\<forall>r. x = Finite r \<longrightarrow> py_num m = Some (Finite (min r 5))))) \<and>
          (map_of kvs ''type'' = Some (JStr ''object'') \<longrightarrow>
             (\<exists>x m. py_num (dict_get kvs ''maxProperties'' (JInt 10)) = Some x \<and>
                map_of kvs' ''maxProperties'' = Some m \<and>
                m = (if fl_lt (Finite 5) x then JInt 5
                     else dict_get kvs ''maxProperties'' (JInt 10)) \<and>
                (\<forall>r. x = Finite r \<longrightarrow> py_num m = Some (Finite (min r 5))))) \<and>
          (\<forall>t \<in> {''string'', ''number'', ''integer''}. map_of kvs ''type'' = Some (JStr t) \<longrightarrow>
             (\<exists>x m. py_num (dict_get kvs ''maxLength'' (JInt 100)) = Some x \<and>
                map_of kvs' ''maxLength'' = Some m \<and>
                m = (if fl_lt (Finite 20) x then JInt 20
                     else dict_get kvs ''maxLength'' (JInt 100)) \<and>
                (\<forall>r. x = Finite r \<longrightarrow> py_num m = Some (Finite (min r 20)))))"
    by blast
qed

theorem limit_complexity_sets_bounds_witness:
  "wf_json (JDict [(''maxItems'', JFloat (Finite (15 / 2))), (''type'', JStr ''array''),
        (''items'', JDict [(''type'', JStr ''integer'')])]) \<and>
   bounds_numeric (JDict [(''maxItems'', JFloat (Finite (15 / 2))), (''type'', JStr ''array''),
        (''items'', JDict [(''type'', JStr ''integer'')])]) \<and>
   limit_complexity (JDict [(''maxItems'', JFloat (Finite (15 / 2))), (''type'', JStr ''array''),
        (''items'', JDict [(''type'', JStr ''integer'')])]) =
     Inr (JDict [(''maxItems'', JInt 5), (''type'', JStr ''array''),
        (''items'', JDict [(''type'', JStr ''integer''), (''maxLength'', JInt 20)])]) \<and>
   (\<exists>kvs'. at_path (JDict [(''maxItems'', JInt 5), (''type'', JStr ''array''),
        (''items'', JDict [(''type'', JStr ''integer''), (''maxLength'', JInt 20)])]) [] =
        Some (JDict kvs') \<and>
      map_of kvs' ''maxItems'' = Some (JInt 5)) \<and>
   at_path (JDict [(''maxItems'', JFloat (Finite (15 / 2))), (''type'', JStr ''array''),
        (''items'', JDict [(''type'', JStr ''integer'')])]) [Key ''items''] =
     Some (JDict [(''type'', JStr ''integer'')]) \<and>
   (\<exists>kvs'. at_path (JDict [(''maxItems'', JInt 5), (''type'', JStr ''array''),
        (''items'', JDict [(''type'', JStr ''integer''), (''maxLength'', JInt 20)])])
        [Key ''items''] = Some (JDict kvs') \<and>
      map_of kvs' ''maxLength'' = Some (JInt 20)) \<and>
   wf_json (JDict [(''type'', JStr ''array''), (''maxItems'', JStr ''7'')]) \<and>
   \<not> bounds_numeric (JDict [(''type'', JStr ''array''), (''maxItems'', JStr ''7'')]) \<and>
   limit_complexity (JDict [(''type'', JStr ''array''), (''maxItems'', JStr ''7'')]) =
     Inl (lt_error (JStr ''7''))"
proof -
  let ?k = "[(''maxItems'', JFloat (Finite (15 / 2))), (''type'', JStr ''array''),
        (''items'', JDict [(''type'', JStr ''integer'')])]"
  let ?s' = "JDict [(''maxItems'', JInt 5), (''type'', JStr ''array''),
        (''items'', JDict [(''type'', JStr ''integer''), (''maxLength'', JInt 20)])]"
  let ?k2 = "[(''type'', JStr ''integer'')]"
  let ?bad = "JDict [(''type'', JStr ''array''), (''maxItems'', JStr ''7'')]"
  have h1: "wf_json (JDict ?k)" by simp
  have hb: "bounds_numeric (JDict ?k)" by code_simp
  have h2: "limit_complexity (JDict ?k) = Inr ?s'" by code_simp
  have h3: "at_path (JDict ?k) [] = Some (JDict ?k)" by simp
  have h4: "at_path (JDict ?k) [Key ''items''] = Some (JDict ?k2)" by simp
  note T = limit_complexity_sets_bounds[OF h1, THEN conjunct2, rule_format]
  \<comment> \<open>the root: \<open>maxItems\<close> 7.5 becomes 5\<close>
  have ty: "map_of ?k ''type'' = Some (JStr ''array'')" by simp
  have dg: "dict_get ?k ''maxItems'' (JInt 10) = JFloat (Finite (15 / 2))"
    by (simp add: dict_get_def)
  from T[OF conjI[OF h2 h3]] obtain kvs' where
    at: "at_path ?s' [] = Some (JDict kvs')"
    and imp: "map_of ?k ''type'' = Some (JStr ''array'') \<longrightarrow>
       (\<exists>x m. py_num (dict_get ?k ''maxItems'' (JInt 10)) = Some x \<and>
          map_of kvs' ''maxItems'' = Some m \<and>
          m = (if fl_lt (Finite 5) x then JInt 5 else dict_get ?k ''maxItems'' (JInt 10)) \<and>
          (\<forall>r. x = Finite r \<longrightarrow> py_num m = Some (Finite (min r 5))))"
    by (elim exE conjE)
  from mp[OF imp ty] obtain x m where
    x: "py_num (dict_get ?k ''maxItems'' (JInt 10)) = Some x"
    and m: "map_of kvs' ''maxItems'' = Some m"
      "m = (if fl_lt (Finite 5) x then JInt 5 else dict_get ?k ''maxItems'' (JInt 10))"
    by (elim exE conjE)
  from x have "x = Finite (15 / 2)" unfolding dg by simp
  with m have "map_of kvs' ''maxItems'' = Some (JInt 5)" by simp
  with at have r1: "\<exists>kvs'. at_path ?s' [] = Some (JDict kvs') \<and>
      map_of kvs' ''maxItems'' = Some (JInt 5)" by (intro exI conjI)
  \<comment> \<open>the node under \<open>items\<close>: \<open>maxLength\<close> is set to 20\<close>
  have ty2: "map_of ?k2 ''type'' = Some (JStr ''integer'')" by simp
  have in2: "''integer'' \<in> {''string'', ''number'', ''integer''}" by simp
  have dg2: "dict_get ?k2 ''maxLength'' (JInt 100) = JInt 100" by (simp add: dict_get_def)
  from T[OF conjI[OF h2 h4]] obtain kvs2 where
    at2: "at_path ?s' [Key ''items''] = Some (JDict kvs2)"
    and all2: "\<forall>t \<in> {''string'', ''number'', ''integer''}. map_of ?k2 ''type'' = Some (JStr t) \<longrightarrow>
       (\<exists>x m. py_num (dict_get ?k2 ''maxLength'' (JInt 100)) = Some x \<and>
          map_of kvs2 ''maxLength'' = Some m \<and>
          m = (if fl_lt (Finite 20) x then JInt 20 else dict_get ?k2 ''maxLength'' (JInt 100)) \<and>
          (\<forall>r. x = Finite r \<longrightarrow> py_num m = Some (Finite (min r 20))))"
    by (elim exE conjE)
  from mp[OF bspec[OF all2 in2] ty2] obtain x2 m2 where
    x2: "py_num (dict_get ?k2 ''maxLength'' (JInt 100)) = Some x2"
    and m2: "map_of kvs2 ''maxLength'' = Some m2"
      "m2 = (if fl_lt (Finite 20) x2 then JInt 20 else dict_get ?k2 ''maxLength'' (JInt 100))"
    by (elim exE conjE)
  from x2 have "x2 = Finite 100" unfolding dg2 by simp
  with m2 have "map_of kvs2 ''maxLength'' = Some (JInt 20)" by simp
  with at2 have r2: "\<exists>kvs'. at_path ?s' [Key ''items''] = Some (JDict kvs') \<and>
      map_of kvs' ''maxLength'' = Some (JInt 20)" by (intro exI conjI)
  \<comment> \<open>a bound that is not a number\<close>
  have b1: "wf_json ?bad" by simp
  have b2: "\<not> bounds_numeric ?bad" by code_simp
  have b3: "limit_complexity ?bad = Inl (lt_error (JStr ''7''))" by code_simp
  from h1 hb h2 r1 h4 r2 b1 b2 b3 show ?thesis by (intro conjI)
qed

lemma dict_existing_num:
  assumes dist: "distinct (map fst kvs)" and run: "limit_items kvs kvs = Inr kvs'"
    and l: "map_of kvs k = Some v" and num: "py_num v = Some x" and nn: "x \<noteq> NaN"
  shows "\<exists>v' y. map_of kvs' k = Some v' \<and> py_num v' = Some y \<and> fl_le y x"
proof -
  from num have nc: "\<not> is_container v" by (cases v) auto
  show ?thesis
  proof (cases "\<exists>dflt c. items_bound kvs = Some (k, dflt, c)")
    case True
    then obtain dflt c where ib: "items_bound kvs = Some (k, dflt, c)" by blast
    from dict_bound[OF dist run ib] l obtain m where
      m: "py_min v c = Inr m" "map_of kvs' k = Some m" by (auto simp: dict_get_def)
    from py_min_le[OF m(1) num nn] m(2) show ?thesis by blast
  next
    case False
    have "map_of kvs' k = map_of kvs k"
      by (rule dict_other[OF dist run]) (use False l nc in auto)
    with l num fl_le_refl[OF nn] show ?thesis by auto
  qed
qed

lemma py_num_NaN: "py_num v = Some NaN \<longleftrightarrow> v = JFloat NaN"
  by (cases v) auto

lemma node_ceiling:
  assumes dist: "distinct (map fst kvs)" and run: "limit_items kvs kvs = Inr kvs'"
    and ty: "map_of kvs ''type'' = Some v" and tb: "type_bound ''type'' v = Some (bk, dflt, c)"
    and nn: "map_of kvs bk \<noteq> Some (JFloat NaN)"
  shows "\<exists>m y. map_of kvs' bk = Some m \<and> py_num m = Some y \<and> fl_le y (Finite (of_int c))"
proof -
  from node_bound[OF dist run ty tb] obtain x m where
    x: "py_num (dict_get kvs bk (JInt dflt)) = Some x" and m: "map_of kvs' bk = Some m"
    and le: "x \<noteq> NaN \<longrightarrow> (\<exists>y. py_num m = Some y \<and> fl_le y x \<and> fl_le y (Finite (of_int c)))"
    by blast
  have "x \<noteq> NaN"
  proof
    assume "x = NaN"
    with x have "dict_get kvs bk (JInt dflt) = JFloat NaN" by (simp add: py_num_NaN)
    with nn show False by (auto simp: dict_get_def split: option.splits)
  qed
  with le m show ?thesis by blast
qed

text \<open>
  Claim C3, as stated, fails: \<^verbatim>\<open>json.loads\<close> reads \<^verbatim>\<open>{"type": "array", "maxItems": NaN}\<close>,
  and \<^verbatim>\<open>min(nan, 5)\<close> is the NaN, since \<^verbatim>\<open>5 < nan\<close> is false. The limiter returns the
  tree unchanged: the bound of the output is neither at most the ceiling 5 nor at most the
  bound of the input.
\<close>

theorem limit_complexity_nan_bound_counterexample:
  "limit_complexity (JDict [(''type'', JStr ''array''), (''maxItems'', JFloat NaN)]) =
     Inr (JDict [(''type'', JStr ''array''), (''maxItems'', JFloat NaN)]) \<and>
   map_of [(''type'', JStr ''array''), (''maxItems'', JFloat NaN)] ''maxItems'' =
     Some (JFloat NaN) \<and>
   py_num (JFloat NaN) = Some NaN \<and>
   \<not> fl_le NaN (Finite 5) \<and>
   \<not> fl_le NaN NaN"
  by (simp add: limit_items.simps py_min_def dict_get_def)

text \<open>
  Claim C3, amended. On every tree on which the limiter returns (the trees where each
  bound that a \<open>type\<close> entry selects is absent or a number), at every dict node: a bound
  key (\<open>maxItems\<close>, \<open>maxProperties\<close>, \<open>maxLength\<close>) that has a numeric value other than NaN
  in the input has a numeric value in the output that is not larger; and the bound that
  the node's \<open>type\<close> makes the limiter set is at most the ceiling (\<open>maxItems\<close> at most 5
  for \<open>array\<close>, \<open>maxProperties\<close> at most 5 for \<open>object\<close>, \<open>maxLength\<close> at most 20 for
  \<open>string\<close>, \<open>number\<close> and \<open>integer\<close>) unless the existing bound is NaN.
\<close>

theorem limit_complexity_never_increases:
  assumes "wf_json s" and "bounds_numeric s"
  shows "\<exists>s'. limit_complexity s = Inr s' \<and>
    (\<forall>p kvs. at_path s p = Some (JDict kvs) \<longrightarrow>
       (\<exists>kvs'. at_path s' p = Some (JDict kvs') \<and>
          (\<forall>bk \<in> {''maxItems'', ''maxProperties'', ''maxLength''}. \<forall>v x.
             map_of kvs bk = Some v \<and> py_num v = Some x \<and> x \<noteq> NaN \<longrightarrow>
             (\<exists>v' y. map_of kvs' bk = Some v' \<and> py_num v' = Some y \<and> fl_le y x)) \<and>
          (map_of kvs ''type'' = Some (JStr ''array'') \<and>
           map_of kvs ''maxItems'' \<noteq> Some (JFloat NaN) \<longrightarrow>
             (\<exists>m y. map_of kvs' ''maxItems'' = Some m \<and> py_num m = Some y \<and>
                fl_le y (Finite 5))) \<and>
          (map_of kvs ''type'' = Some (JStr ''object'') \<and>
           map_of kvs ''maxProperties'' \<noteq> Some (JFloat NaN) \<longrightarrow>
             (\<exists>m y. map_of kvs' ''maxProperties'' = Some m \<and> py_num m = Some y \<and>
                fl_le y (Finite 5))) \<and>
          (\<forall>t \<in> {''string'', ''number'', ''integer''}.
             map_of kvs ''type'' = Some (JStr t) \<and>
             map_of kvs ''maxLength'' \<noteq> Some (JFloat NaN) \<longrightarrow>
             (\<exists>m y. map_of kvs' ''maxLength'' = Some m \<and> py_num m = Some y \<and>
                fl_le y (Finite 20)))))"
proof -
  from limit_complexity_returns[OF assms] obtain s' where r: "limit_complexity s = Inr s'"
    by blast
  have "\<exists>kvs'. at_path s' p = Some (JDict kvs') \<and>
          (\<forall>bk \<in> {''maxItems'', ''maxProperties'', ''maxLength''}. \<forall>v x.
             map_of kvs bk = Some v \<and> py_num v = Some x \<and> x \<noteq> NaN \<longrightarrow>
             (\<exists>v' y. map_of kvs' bk = Some v' \<and> py_num v' = Some y \<and> fl_le y x)) \<and>
          (map_of kvs ''type'' = Some (JStr ''array'') \<and>
           map_of kvs ''maxItems'' \<noteq> Some (JFloat NaN) \<longrightarrow>
             (\<exists>m y. map_of kvs' ''maxItems'' = Some m \<and> py_num m = Some y \<and>
                fl_le y (Finite 5))) \<and>
          (map_of kvs ''type'' = Some (JStr ''object'') \<and>
           map_of kvs ''maxProperties'' \<noteq> Some (JFloat NaN) \<longrightarrow>
             (\<exists>m y. map_of kvs' ''maxProperties'' = Some m \<and> py_num m = Some y \<and>
                fl_le y (Finite 5))) \<and>
          (\<forall>t \<in> {''string'', ''number'', ''integer''}.
             map_of kvs ''type'' = Some (JStr t) \<and>
             map_of kvs ''maxLength'' \<noteq> Some (JFloat NaN) \<longrightarrow>
             (\<exists>m y. map_of kvs' ''maxLength'' = Some m \<and> py_num m = Some y \<and>
                fl_le y (Finite 20)))"
    if n: "at_path s p = Some (JDict kvs)" for p kvs
  proof -
    from assms(1) r n obtain kvs' where at: "at_path s' p = Some (JDict kvs')"
      and run: "limit_items kvs kvs = Inr kvs'" and dist: "distinct (map fst kvs)"
      by (rule at_path_dict)
    have e: "\<exists>v' y. map_of kvs' bk = Some v' \<and> py_num v' = Some y \<and> fl_le y x"
      if "map_of kvs bk = Some v \<and> py_num v = Some x \<and> x \<noteq> NaN" for bk v x
      using dict_existing_num[OF dist run] that by blast
    have a: "\<exists>m y. map_of kvs' ''maxItems'' = Some m \<and> py_num m = Some y \<and> fl_le y (Finite 5)"
      if "map_of kvs ''type'' = Some (JStr ''array'') \<and>
          map_of kvs ''maxItems'' \<noteq> Some (JFloat NaN)"
      using node_ceiling[OF dist run _ type_bound_array] that by simp
    have b: "\<exists>m y. map_of kvs' ''maxProperties'' = Some m \<and> py_num m = Some y \<and>
        fl_le y (Finite 5)"
      if "map_of kvs ''type'' = Some (JStr ''object'') \<and>
          map_of kvs ''maxProperties'' \<noteq> Some (JFloat NaN)"
      using node_ceiling[OF dist run _ type_bound_object] that by simp
    have c: "\<exists>m y. map_of kvs' ''maxLength'' = Some m \<and> py_num m = Some y \<and>
        fl_le y (Finite 20)"
      if "t \<in> {''string'', ''number'', ''integer''}"
        "map_of kvs ''type'' = Some (JStr t) \<and> map_of kvs ''maxLength'' \<noteq> Some (JFloat NaN)"
      for t
      using node_ceiling[OF dist run _ type_bound_scalar[OF that(1)]] that(2) by simp
    from at e a b c show ?thesis by blast
  qed
  with r show ?thesis by blast
qed

theorem limit_complexity_never_increases_witness:
  "wf_json (JList [JDict [(''type'', JStr ''array''), (''maxItems'', JInt 40),
        (''maxLength'', JInt 7)]]) \<and>
   bounds_numeric (JList [JDict [(''type'', JStr ''array''), (''maxItems'', JInt 40),
        (''maxLength'', JInt 7)]]) \<and>
   limit_complexity (JList [JDict [(''type'', JStr ''array''), (''maxItems'', JInt 40),
        (''maxLength'', JInt 7)]]) =
     Inr (JList [JDict [(''type'', JStr ''array''), (''maxItems'', JInt 5),
        (''maxLength'', JInt 7)]]) \<and>
   at_path (JList [JDict [(''type'', JStr ''array''), (''maxItems'', JInt 40),
        (''maxLength'', JInt 7)]]) [Idx 0] =
     Some (JDict [(''type'', JStr ''array''), (''maxItems'', JInt 40), (''maxLength'', JInt 7)]) \<and>
   at_path (JList [JDict [(''type'', JStr ''array''), (''maxItems'', JInt 5),
        (''maxLength'', JInt 7)]]) [Idx 0] =
     Some (JDict [(''type'', JStr ''array''), (''maxItems'', JInt 5), (''maxLength'', JInt 7)]) \<and>
   (\<exists>v' y. map_of [(''type'', JStr ''array''), (''maxItems'', JInt 5), (''maxLength'', JInt 7)]
        ''maxItems'' = Some v' \<and> py_num v' = Some y \<and> fl_le y (Finite 40)) \<and>
   (\<exists>v' y. map_of [(''type'', JStr ''array''), (''maxItems'', JInt 5), (''maxLength'', JInt 7)]
        ''maxLength'' = Some v' \<and> py_num v' = Some y \<and> fl_le y (Finite 7)) \<and>
   (\<exists>m y. map_of [(''type'', JStr ''array''), (''maxItems'', JInt 5), (''maxLength'', JInt 7)]
        ''maxItems'' = Some m \<and> py_num m = Some y \<and> fl_le y (Finite 5)) \<and>
   map_of [(''type'', JStr ''array''), (''maxItems'', JInt 5), (''maxLength'', JInt 7)]
        ''maxItems'' = Some (JInt 5)"
proof -
  let ?k = "[(''type'', JStr ''array''), (''maxItems'', JInt 40), (''maxLength'', JInt 7)]"
  let ?k' = "[(''type'', JStr ''array''), (''maxItems'', JInt 5), (''maxLength'', JInt 7)]"
  let ?B = "{''maxItems'', ''maxProperties'', ''maxLength''}"
  have h1: "wf_json (JList [JDict ?k])" by simp
  have hb: "bounds_numeric (JList [JDict ?k])" by code_simp
  have h2: "limit_complexity (JList [JDict ?k]) = Inr (JList [JDict ?k'])" by code_simp
  have h3: "at_path (JList [JDict ?k]) [Idx 0] = Some (JDict ?k)" by simp
  from limit_complexity_never_increases[OF h1 hb] obtain s' where
    r: "limit_complexity (JList [JDict ?k]) = Inr s'"
    and all: "\<forall>p kvs. at_path (JList [JDict ?k]) p = Some (JDict kvs) \<longrightarrow>
       (\<exists>kvs'. at_path s' p = Some (JDict kvs') \<and>
          (\<forall>bk \<in> ?B. \<forall>v x.
             map_of kvs bk = Some v \<and> py_num v = Some x \<and> x \<noteq> NaN \<longrightarrow>
             (\<exists>v' y. map_of kvs' bk = Some v' \<and> py_num v' = Some y \<and> fl_le y x)) \<and>
          (map_of kvs ''type'' = Some (JStr ''array'') \<and>
           map_of kvs ''maxItems'' \<noteq> Some (JFloat NaN) \<longrightarrow>
             (\<exists>m y. map_of kvs' ''maxItems'' = Some m \<and> py_num m = Some y \<and>
                fl_le y (Finite 5))) \<and>
          (map_of kvs ''type'' = Some (JStr ''object'') \<and>
           map_of kvs ''maxProperties'' \<noteq> Some (JFloat NaN) \<longrightarrow>
             (\<exists>m y. map_of kvs' ''maxProperties'' = Some m \<and> py_num m = Some y \<and>
                fl_le y (Finite 5))) \<and>
          (\<forall>t \<in> {''string'', ''number'', ''integer''}.
             map_of kvs ''type'' = Some (JStr t) \<and>
             map_of kvs ''maxLength'' \<noteq> Some (JFloat NaN) \<longrightarrow>
             (\<exists>m y. map_of kvs' ''maxLength'' = Some m \<and> py_num m = Some y \<and>
                fl_le y (Finite 20))))"
    by (elim exE conjE)
  from r h2 have s': "s' = JList [JDict ?k']" by simp
  from mp[OF spec[OF spec[OF all]] h3] obtain kvs' where
    at: "at_path s' [Idx 0] = Some (JDict kvs')"
    and ex: "\<forall>bk \<in> ?B. \<forall>v x.
             map_of ?k bk = Some v \<and> py_num v = Some x \<and> x \<noteq> NaN \<longrightarrow>
             (\<exists>v' y. map_of kvs' bk = Some v' \<and> py_num v' = Some y \<and> fl_le y x)"
    and ce: "map_of ?k ''type'' = Some (JStr ''array'') \<and>
           map_of ?k ''maxItems'' \<noteq> Some (JFloat NaN) \<longrightarrow>
             (\<exists>m y. map_of kvs' ''maxItems'' = Some m \<and> py_num m = Some y \<and>
                fl_le y (Finite 5))"
    by (elim exE conjE)
  have m1: "''maxItems'' \<in> ?B" and m3: "''maxLength'' \<in> ?B" by simp_all
  have v1: "map_of ?k ''maxItems'' = Some (JInt 40) \<and> py_num (JInt 40) = Some (Finite 40) \<and>
      Finite 40 \<noteq> NaN" by simp
  have v3: "map_of ?k ''maxLength'' = Some (JInt 7) \<and> py_num (JInt 7) = Some (Finite 7) \<and>
      Finite 7 \<noteq> NaN" by simp
  from mp[OF spec[OF spec[OF bspec[OF ex m1]]] v1]
  have r1: "\<exists>v' y. map_of kvs' ''maxItems'' = Some v' \<and> py_num v' = Some y \<and>
      fl_le y (Finite 40)" .
  from mp[OF spec[OF spec[OF bspec[OF ex m3]]] v3]
  have r3: "\<exists>v' y. map_of kvs' ''maxLength'' = Some v' \<and> py_num v' = Some y \<and>
      fl_le y (Finite 7)" .
  have c1: "map_of ?k ''type'' = Some (JStr ''array'') \<and>
      map_of ?k ''maxItems'' \<noteq> Some (JFloat NaN)" by simp
  from mp[OF ce c1]
  have r5: "\<exists>m y. map_of kvs' ''maxItems'' = Some m \<and> py_num m = Some y \<and> fl_le y (Finite 5)" .
  from at have k: "kvs' = ?k'" unfolding s' by simp
  have at': "at_path (JList [JDict ?k']) [Idx 0] = Some (JDict ?k')" by simp
  have r6: "map_of ?k' ''maxItems'' = Some (JInt 5)" by simp
  note q1 = r1[unfolded k] and q3 = r3[unfolded k] and q5 = r5[unfolded k]
  show ?thesis
    using conjI[OF h1 conjI[OF hb conjI[OF h2 conjI[OF h3 conjI[OF at' conjI[OF q1
      conjI[OF q3 conjI[OF q5 r6]]]]]]]] .
qed

section \<open>Properties of the Instance Generator\<close>

lemma spec_trials_print:
  assumes "\<forall>i<n. \<exists>x. draw (j + i) = Inr x \<and> P x"
  shows "\<exists>insts w'. length insts = n \<and> (\<forall>x \<in> set insts. P x) \<and>
     spec_trials draw (print_instance env) j n w = (Inr (), w') \<and>
     stdout w' = stdout w @ map (\<lambda>x. ''Generated instance: '' @ json_dumps env x) insts \<and>
     stderr w' = stderr w"
  using assms
proof (induction n arbitrary: j w)
  case 0
  show ?case by simp
next
  case (Suc n)
  from Suc.prems have "\<exists>x. draw (j + 0) = Inr x \<and> P x" by blast
  then obtain x where x: "draw j = Inr x" "P x" by auto
  let ?w1 = "py_print (''Generated instance: '' @ json_dumps env x) w"
  have "\<forall>i<n. \<exists>y. draw (Suc j + i) = Inr y \<and> P y"
  proof (intro allI impI)
    fix i assume "i < n"
    then have "Suc i < Suc n" by simp
    with Suc.prems have "\<exists>y. draw (j + Suc i) = Inr y \<and> P y" by blast
    then show "\<exists>y. draw (Suc j + i) = Inr y \<and> P y" by simp
  qed
  from Suc.IH[OF this, of ?w1] obtain insts w' where
    r: "length insts = n" "\<forall>y \<in> set insts. P y"
      "spec_trials draw (print_instance env) (Suc j) n ?w1 = (Inr (), w')"
      "stdout w' = stdout ?w1 @ map (\<lambda>x. ''Generated instance: '' @ json_dumps env x) insts"
      "stderr w' = stderr ?w1"
    by blast
  have "length (x # insts) = Suc n" using r(1) by simp
  moreover have "\<forall>y \<in> set (x # insts). P y" using r(2) x(2) by simp
  moreover have "spec_trials draw (print_instance env) j (Suc n) w = (Inr (), w')"
    using x(1) r(3) by (simp add: print_instance_def)
  moreover have "stdout w' =
      stdout w @ map (\<lambda>x. ''Generated instance: '' @ json_dumps env x) (x # insts)"
    using r(4) by (simp add: py_print_def)
  moreover have "stderr w' = stderr w" using r(5) by (simp add: py_print_def)
  ultimately show ?case by blast
qed

lemma list_all_JInt: "list_all (\<lambda>y. \<exists>n. y = JInt n) xs \<Longrightarrow> \<exists>ns. xs = map JInt ns"
proof (induction xs)
  case Nil
  show ?case by simp
next
  case (Cons y xs)
  then obtain n ns where "y = JInt n" "xs = map JInt ns" by auto
  then have "y # xs = map JInt (n # ns)" by simp
  then show ?case by (rule exI)
qed

lemma conforms_integer:
  "conforms (JDict [(''type'', JStr ''integer''), (''maxLength'', JInt 20)]) y \<Longrightarrow> \<exists>n. y = JInt n"
  by (cases y) simp_all

lemma conforms_limited_array:
  assumes "conforms (JDict [(''type'', JStr ''array''),
       (''items'', JDict [(''type'', JStr ''integer''), (''maxLength'', JInt 20)]),
       (''maxItems'', JInt 5)]) x"
  shows "\<exists>ns. x = JList (map JInt ns) \<and> length ns \<le> 5"
proof (cases x)
  case (JList xs)
  with assms have len: "length xs \<le> 5"
    and all: "list_all (conforms (JDict [(''type'', JStr ''integer''), (''maxLength'', JInt 20)])) xs"
    by simp_all
  from all have "list_all (\<lambda>y. \<exists>n. y = JInt n) xs"
    by (auto simp: list_all_iff dest: conforms_integer)
  then obtain ns where "xs = map JInt ns" by (auto dest: list_all_JInt)
  with len JList show ?thesis by auto
qed (use assms in simp_all)


lemma generate_json_instances_result:
  assumes "limit_complexity schema = Inr limited_schema"
    and "from_schema env limited_schema = Inr strategy"
    and "run_given env strategy num (print_instance env)
      (py_print ''Starting instance generation''
        (py_print (''Using schema: '' @ json_dumps_indent env schema)
          (py_print (''Generating '' @ str_int num @ '' JSON instances with seed '' @
             str_opt_int seed) w))) = (Inr (), w')"
  shows "generate_json_instances env schema num seed w =
     (Inr (), py_print ''Finished instance generation'' w')"
  unfolding generate_json_instances_def Let_def using assms
  by (simp only: sum.case prod.case simp_thms)

text \<open>
  Claim C8, for the engine as the specification describes it (\<open>spec_given\<close>) producing
  instances that conform to the schema it is given (\<open>conforms\<close>). Let the loader return
  the schema \<open>{"type": "array", "items": {"type": "integer"}}\<close>, let the instance count be
  10 and no script be given. The generator hands the engine the limited schema, with
  \<open>maxItems\<close> 5. The process exits with status 0 and prints, between the line that
  starts the generation and the line that finishes it, exactly 10 lines
  \<^verbatim>\<open>Generated instance: ...\<close>, each for a list of ints of length at most 5; nothing is
  written to the diagnostic stream by the generator.
\<close>

theorem array_of_integers_end_to_end:
  fixes env :: "'s env" and draw :: "'s \<Rightarrow> nat \<Rightarrow> exn + json" and a :: args and w0 :: world
  defines "schema \<equiv> JDict [(''type'', JStr ''array''),
      (''items'', JDict [(''type'', JStr ''integer'')])]"
  defines "limited_schema \<equiv> JDict [(''type'', JStr ''array''),
      (''items'', JDict [(''type'', JStr ''integer''), (''maxLength'', JInt 20)]),
      (''maxItems'', JInt 5)]"
  defines "w1 \<equiv> py_print (received_arguments a) (py_print ''Starting CLI execution'' w0)"
  assumes load: "load_schema env (arg_schema a) w1 = (Inr schema, w2)"
    and num: "arg_num a = 10"
    and noscript: "arg_script a = None"
    and seed: "set_seed env (arg_seed a) w2 = (Inr (), w3)"
    and strat: "from_schema env limited_schema = Inr strategy"
    and engine: "run_given env = spec_given draw"
    and conf: "\<forall>i<10. \<exists>inst. draw strategy i = Inr inst \<and> conforms limited_schema inst"
  shows "limit_complexity schema = Inr limited_schema \<and>
    (\<exists>insts. length insts = 10 \<and>
       (\<forall>inst \<in> set insts. \<exists>ns. inst = JList (map JInt ns) \<and> length ns \<le> 5) \<and>
       fst (cli env a w0) = 0 \<and>
       stdout (snd (cli env a w0)) = stdout w3 @
         [''Generating 10 JSON instances with seed '' @ str_opt_int (arg_seed a),
          ''Using schema: '' @ json_dumps_indent env schema,
          ''Starting instance generation''] @
         map (\<lambda>inst. ''Generated instance: '' @ json_dumps env inst) insts @
         [''Finished instance generation'', ''CLI execution completed''] \<and>
       stderr (snd (cli env a w0)) = stderr w3)"
proof -
  let ?ws = "py_print ''Starting instance generation''
        (py_print (''Using schema: '' @ json_dumps_indent env schema)
          (py_print (''Generating '' @ str_int (arg_num a) @ '' JSON instances with seed '' @
             str_opt_int (arg_seed a)) w3))"
  have lim: "limit_complexity schema = Inr limited_schema"
    unfolding schema_def limited_schema_def by code_simp
  have ten: "str_int 10 = ''10''" by code_simp
  from conf have "\<forall>i<10. \<exists>x. draw strategy (0 + i) = Inr x \<and> conforms limited_schema x" by simp
  from spec_trials_print[OF this, of env ?ws] obtain insts w4 where
    r: "length insts = 10" "\<forall>x \<in> set insts. conforms limited_schema x"
      "spec_trials (draw strategy) (print_instance env) 0 10 ?ws = (Inr (), w4)"
      "stdout w4 = stdout ?ws @ map (\<lambda>x. ''Generated instance: '' @ json_dumps env x) insts"
      "stderr w4 = stderr ?ws"
    by blast
  have shape: "\<forall>inst \<in> set insts. \<exists>ns. inst = JList (map JInt ns) \<and> length ns \<le> 5"
    using r(2) unfolding limited_schema_def by (blast dest: conforms_limited_array)
  from r(3) have "run_given env strategy (arg_num a) (print_instance env) ?ws = (Inr (), w4)"
    by (simp add: engine spec_given_def num)
  from generate_json_instances_result[OF lim strat this]
  have "generate_json_instances env schema (arg_num a) (arg_seed a) w3 =
      (Inr (), py_print ''Finished instance generation'' w4)" .
  with noscript have "run_selected env a schema w3 =
      (Inr (), py_print ''Finished instance generation'' w4)"
    by (simp add: run_selected_def)
  from cli_success[OF load[unfolded w1_def] seed this]
  have cli: "cli env a w0 =
      (0, py_print ''CLI execution completed'' (py_print ''Finished instance generation'' w4))" .
  have so: "stdout (snd (cli env a w0)) = stdout w3 @
         [''Generating 10 JSON instances with seed '' @ str_opt_int (arg_seed a),
          ''Using schema: '' @ json_dumps_indent env schema,
          ''Starting instance generation''] @
         map (\<lambda>inst. ''Generated instance: '' @ json_dumps env inst) insts @
         [''Finished instance generation'', ''CLI execution completed'']"
    unfolding cli using r(4) by (simp add: py_print_def num ten)
  have se: "stderr (snd (cli env a w0)) = stderr w3"
    unfolding cli using r(5) by (simp add: py_print_def)
  from cli have st: "fst (cli env a w0) = 0" by simp
  from lim r(1) shape st so se show ?thesis by blast
qed

theorem array_of_integers_end_to_end_witness:
  \<open>fst (load_schema demo_env ''{"type": "array", "items": {"type": "integer"}}''
     (py_print (received_arguments
        \<lparr>arg_schema = ''{"type": "array", "items": {"type": "integer"}}'', arg_num = 10,
         arg_seed = None, arg_script = None\<rparr>)
       (py_print ''Starting CLI execution'' world0))) =
     Inr (JDict [(''type'', JStr ''array''), (''items'', JDict [(''type'', JStr ''integer'')])]) \<and>
   run_given demo_env = spec_given demo_draw \<and>
   demo_draw (JDict [(''type'', JStr ''array''),
        (''items'', JDict [(''type'', JStr ''integer''), (''maxLength'', JInt 20)]),
        (''maxItems'', JInt 5)]) 9 = Inr (JList [JInt 9]) \<and>
   conforms (JDict [(''type'', JStr ''array''),
        (''items'', JDict [(''type'', JStr ''integer''), (''maxLength'', JInt 20)]),
        (''maxItems'', JInt 5)]) (JList [JInt 9]) \<and>
   (\<exists>insts. length insts = 10 \<and>
      (\<forall>inst \<in> set insts. \<exists>ns. inst = JList (map JInt ns) \<and> length ns \<le> 5) \<and>
      fst (cli demo_env
        \<lparr>arg_schema = ''{"type": "array", "items": {"type": "integer"}}'', arg_num = 10,
         arg_seed = None, arg_script = None\<rparr> world0) = 0 \<and>
      stdout (snd (cli demo_env
        \<lparr>arg_schema = ''{"type": "array", "items": {"type": "integer"}}'', arg_num = 10,
         arg_seed = None, arg_script = None\<rparr> world0)) =
        [''Starting CLI execution'',
         ''Received arguments: schema={"type": "array", "items": {"type": "integer"}}, num=10, seed=None, script=None'',
         ''Attempting to load schema from: {"type": "array", "items": {"type": "integer"}}'',
         ''Successfully parsed inline JSON schema'',
         ''Generating 10 JSON instances with seed None'',
         ''Using schema: null'',
         ''Starting instance generation''] @
        map (\<lambda>inst. ''Generated instance: '' @ json_dumps demo_env inst) insts @
        [''Finished instance generation'', ''CLI execution completed''])\<close>
proof -
  let ?a = \<open>\<lparr>arg_schema = ''{"type": "array", "items": {"type": "integer"}}'', arg_num = 10,
         arg_seed = None, arg_script = None\<rparr>\<close>
  let ?S = "JDict [(''type'', JStr ''array''), (''items'', JDict [(''type'', JStr ''integer'')])]"
  let ?L = "JDict [(''type'', JStr ''array''),
        (''items'', JDict [(''type'', JStr ''integer''), (''maxLength'', JInt 20)]),
        (''maxItems'', JInt 5)]"
  let ?w1 = "py_print (received_arguments ?a) (py_print ''Starting CLI execution'' world0)"
  let ?w2 = "snd (load_schema demo_env (arg_schema ?a) ?w1)"
  let ?w3 = "snd (set_seed demo_env (arg_seed ?a) ?w2)"
  have f1: "fst (load_schema demo_env (arg_schema ?a) ?w1) = Inr ?S" by code_simp
  then have load: "load_schema demo_env (arg_schema ?a) ?w1 = (Inr ?S, ?w2)"
    by (simp only: prod_eq_iff fst_conv snd_conv simp_thms)
  have num: "arg_num ?a = 10" and noscript: "arg_script ?a = None" by simp_all
  have "fst (set_seed demo_env (arg_seed ?a) ?w2) = Inr ()" by (simp add: set_seed_def)
  then have seed: "set_seed demo_env (arg_seed ?a) ?w2 = (Inr (), ?w3)"
    by (simp only: prod_eq_iff fst_conv snd_conv simp_thms)
  have strat: "from_schema demo_env ?L = Inr ?L" by (simp add: demo_env_def)
  have engine: "run_given demo_env = spec_given demo_draw" by (simp add: demo_env_def)
  have conf: "\<forall>i<10. \<exists>inst. demo_draw ?L i = Inr inst \<and> conforms ?L inst"
    by (simp add: demo_draw_def)
  note T0 = array_of_integers_end_to_end[where env = demo_env and draw = demo_draw and a = ?a
      and ?w0.0 = world0 and ?w2.0 = ?w2 and ?w3.0 = ?w3 and strategy = ?L]
  note T = T0[OF load num noscript seed strat engine conf]
  have w3: \<open>stdout ?w3 = [''Starting CLI execution'',
         ''Received arguments: schema={"type": "array", "items": {"type": "integer"}}, num=10, seed=None, script=None'',
         ''Attempting to load schema from: {"type": "array", "items": {"type": "integer"}}'',
         ''Successfully parsed inline JSON schema'']\<close> by code_simp
  have ind: "json_dumps_indent demo_env ?S = ''null''" by code_simp
  from T have "\<exists>insts. length insts = 10 \<and>
       (\<forall>inst \<in> set insts. \<exists>ns. inst = JList (map JInt ns) \<and> length ns \<le> 5) \<and>
       fst (cli demo_env ?a world0) = 0 \<and>
       stdout (snd (cli demo_env ?a world0)) = stdout ?w3 @
         [''Generating 10 JSON instances with seed '' @ str_opt_int (arg_seed ?a),
          ''Using schema: '' @ json_dumps_indent demo_env ?S,
          ''Starting instance generation''] @
         map (\<lambda>inst. ''Generated instance: '' @ json_dumps demo_env inst) insts @
         [''Finished instance generation'', ''CLI execution completed''] \<and>
       stderr (snd (cli demo_env ?a world0)) = stderr ?w3"
    by (rule conjunct2)
  then obtain insts where i: "length insts = 10"
      "\<forall>inst \<in> set insts. \<exists>ns. inst = JList (map JInt ns) \<and> length ns \<le> 5"
      "fst (cli demo_env ?a world0) = 0"
      "stdout (snd (cli demo_env ?a world0)) = stdout ?w3 @
         [''Generating 10 JSON instances with seed '' @ str_opt_int (arg_seed ?a),
          ''Using schema: '' @ json_dumps_indent demo_env ?S,
          ''Starting instance generation''] @
         map (\<lambda>inst. ''Generated instance: '' @ json_dumps demo_env inst) insts @
         [''Finished instance generation'', ''CLI execution completed'']"
    by (elim exE conjE)
  from i(4) have i4: \<open>stdout (snd (cli demo_env ?a world0)) =
        [''Starting CLI execution'',
         ''Received arguments: schema={"type": "array", "items": {"type": "integer"}}, num=10, seed=None, script=None'',
         ''Attempting to load schema from: {"type": "array", "items": {"type": "integer"}}'',
         ''Successfully parsed inline JSON schema'',
         ''Generating 10 JSON instances with seed None'',
         ''Using schema: null'',
         ''Starting instance generation''] @
        map (\<lambda>inst. ''Generated instance: '' @ json_dumps demo_env inst) insts @
        [''Finished instance generation'', ''CLI execution completed'']\<close>
    unfolding w3 ind by simp
  from i(1,2,3) i4 have ex: \<open>\<exists>insts. length insts = 10 \<and>
      (\<forall>inst \<in> set insts. \<exists>ns. inst = JList (map JInt ns) \<and> length ns \<le> 5) \<and>
      fst (cli demo_env ?a world0) = 0 \<and>
      stdout (snd (cli demo_env ?a world0)) =
        [''Starting CLI execution'',
         ''Received arguments: schema={"type": "array", "items": {"type": "integer"}}, num=10, seed=None, script=None'',
         ''Attempting to load schema from: {"type": "array", "items": {"type": "integer"}}'',
         ''Successfully parsed inline JSON schema'',
         ''Generating 10 JSON instances with seed None'',
         ''Using schema: null'',
         ''Starting instance generation''] @
        map (\<lambda>inst. ''Generated instance: '' @ json_dumps demo_env inst) insts @
        [''Finished instance generation'', ''CLI execution completed'']\<close>
    by (intro exI conjI)
  have f1': \<open>fst (load_schema demo_env ''{"type": "array", "items": {"type": "integer"}}'' ?w1) =
      Inr ?S\<close> using f1 by simp
  have d9: "demo_draw ?L 9 = Inr (JList [JInt 9])" by (simp add: demo_draw_def)
  have c9: "conforms ?L (JList [JInt 9])" by simp
  from f1' engine d9 c9 ex show ?thesis by (intro conjI)
qed

end
